theory Spec2Isabelle
  imports Main "HOL-Library.Word" "HOL-Library.Multiset" "HOL-Library.Char_ord"
    "HOL-Library.List_Lexorder"
begin

section \<open>The log aggregator of patrickod/pcmds\<close>

text \<open>
  The repository holds two variants of one S3 log aggregator, both \<^verbatim>\<open>package main\<close>:
  \<^item> \<^verbatim>\<open>src/unnamed/part_003\<close>: objects are read as they are stored and appended to the
    buffer; the buffer is uploaded as it is. It can run as a Lambda handler or from the
    command line.
  \<^item> \<^verbatim>\<open>src/unnamed/part_004\<close>: each object is read through \<^verbatim>\<open>gzip.NewReader\<close>, its
    content is gzip-compressed again before it is appended, and the whole buffer is
    gzip-compressed once more when it is uploaded. Lambda handler only.

  Apart from these gzip steps the functions \<^verbatim>\<open>humanizeBytes\<close>, \<^verbatim>\<open>uploadBuffer\<close>,
  \<^verbatim>\<open>writeContent\<close>, \<^verbatim>\<open>processObject\<close>, \<^verbatim>\<open>run\<close> and the body of
  \<^verbatim>\<open>processLogs\<close> / \<^verbatim>\<open>handleRequest\<close> are the same text in both files. The embedding
  below follows that text once and branches on a \<open>variant\<close> exactly where the files differ.
\<close>

subsection \<open>Machine integers and formatting\<close>

type_synonym byte = "8 word"
type_synonym bytes = "byte list"

text \<open>\<^verbatim>\<open>const maxOutputSize = 500 * 1024 * 1024\<close>\<close>

definition maxOutputSize :: int where
  "maxOutputSize = 500 * 1024 * 1024"

text \<open>
  Go's \<^verbatim>\<open>int\<close> and \<^verbatim>\<open>int64\<close> are 64-bit two's complement on the platforms
  the program runs on. Values are kept as \<open>int\<close>; an arithmetic result is passed through
  \<open>wrap64\<close> where the source computes it in a machine integer.
\<close>

definition maxInt :: int where
  "maxInt = 2 ^ 63 - 1"

definition wrap64 :: "int \<Rightarrow> int" where
  "wrap64 x = (x + 2 ^ 63) mod 2 ^ 64 - 2 ^ 63"

text \<open>\<^verbatim>\<open>%d\<close>: decimal digits, most significant first, with a sign for a negative number.\<close>

function digits :: "nat \<Rightarrow> string" where
  "digits n = (if n < 10 then [''0123456789'' ! n]
               else digits (n div 10) @ [''0123456789'' ! (n mod 10)])"
  by pat_completeness auto
termination
  by (relation "measure id") auto

declare digits.simps [simp del]

definition fmt_d :: "int \<Rightarrow> string" where
  "fmt_d n = (if n < 0 then ''-'' @ digits (nat (- n)) else digits (nat n))"

text \<open>\<^verbatim>\<open>%03d\<close>: at least three characters, padded with zeros after the sign.\<close>

definition pad0 :: "nat \<Rightarrow> string \<Rightarrow> string" where
  "pad0 w s = replicate (w - length s) (CHR ''0'') @ s"

definition fmt_03d :: "int \<Rightarrow> string" where
  "fmt_03d n = (if n < 0 then ''-'' @ pad0 2 (digits (nat (- n))) else pad0 3 (digits (nat n)))"

text \<open>
  \<^verbatim>\<open>float64(bytes)\<close> for \<open>0 \<le> bytes < 2^63\<close>, as the exact integer the double holds:
  below \<open>2^53\<close> the conversion is exact, above it the low \<open>e\<close> bits are rounded away to
  nearest, ties to even, where \<open>53 + e\<close> is the bit length of the argument.
\<close>

definition float64_of_int :: "int \<Rightarrow> int" where
  "float64_of_int n =
     (let e = length (filter (\<lambda>k. 2 ^ (53 + k) \<le> n) [0..<11]);
          q = n div 2 ^ e;
          r = n mod 2 ^ e
      in if e = 0 then n
         else (if 2 * r > 2 ^ e \<or> (2 * r = 2 ^ e \<and> odd q) then q + 1 else q) * 2 ^ e)"

text \<open>
  \<^verbatim>\<open>fmt.Sprintf("%.1f", float64(bytes)/float64(div))\<close> for a positive power of two
  \<open>div\<close>: the quotient of a double by a power of two is exact, and \<^verbatim>\<open>%.1f\<close> prints its
  exact value rounded to one decimal, ties to even.
\<close>

definition fmt_1f :: "int \<Rightarrow> int \<Rightarrow> string" where
  "fmt_1f bytes dv =
     (let f = 10 * float64_of_int bytes;
          q = f div dv;
          r = f mod dv;
          t = (if 2 * r > dv \<or> (2 * r = dv \<and> odd q) then q + 1 else q)
      in digits (nat (t div 10)) @ ''.'' @ digits (nat (t mod 10)))"

subsection \<open>humanizeBytes\<close>

text \<open>
  \<^verbatim>\<open>for n := bytes / unit; n >= unit; n /= unit { div *= unit; exp++ }\<close> with
  \<^verbatim>\<open>unit = 1024\<close>. The loop is entered with \<open>n \<ge> 0\<close> only, where Go's truncating
  division and \<open>div\<close> agree. It returns the final \<^verbatim>\<open>div\<close> and \<^verbatim>\<open>exp\<close>.
\<close>

function humanize_loop :: "int \<Rightarrow> int \<Rightarrow> int \<Rightarrow> int \<times> int" where
  "humanize_loop n dv ex =
     (if n \<ge> 1024 then humanize_loop (n div 1024) (wrap64 (dv * 1024)) (wrap64 (ex + 1))
      else (dv, ex))"
  by pat_completeness auto
termination
  by (relation "measure (\<lambda>(n, dv, ex). nat n)") auto

declare humanize_loop.simps [simp del]

text \<open>
  The result is \<open>None\<close> where the index expression \<^verbatim>\<open>"KMGTPE"[exp]\<close> is out of range,
  which is a run-time panic in Go.
\<close>

definition humanizeBytes :: "int \<Rightarrow> string option" where
  "humanizeBytes bytes =
     (if bytes < 1024 then Some (fmt_d bytes @ '' B'')
      else
        (let (dv, ex) = humanize_loop (bytes div 1024) 1024 0
         in if 0 \<le> ex \<and> ex < int (length ''KMGTPE'')
            then Some (fmt_1f bytes dv @ '' '' @ [''KMGTPE'' ! nat ex] @ ''B'')
            else None))"

text \<open>The unit exponent \<^verbatim>\<open>exp\<close> that \<open>humanizeBytes\<close> computes for \<open>bytes \<ge> 1024\<close>.\<close>

definition humanize_exp :: "int \<Rightarrow> int" where
  "humanize_exp bytes = snd (humanize_loop (bytes div 1024) 1024 0)"

subsection \<open>Errors and outcomes\<close>

text \<open>
  One constructor per error the program builds with \<^verbatim>\<open>fmt.Errorf\<close> (the argument is the
  key or URI the message names), and \<open>CLIArgsFatal\<close> for the \<^verbatim>\<open>log.Fatal\<close> of
  \<^verbatim>\<open>main\<close>.
\<close>

datatype error =
    DateRequired
  | BucketRequired
  | InvalidS3URI string
  | LoadConfigError
  | ListAppsError
  | ListObjectsError
  | GetObjectError string
  | ReadContentError string
  | GzipReaderError string
  | UploadError
  | CLIArgsFatal

text \<open>
  How a call ends: it returns \<^verbatim>\<open>nil\<close> (\<open>OK\<close>), it returns an error, the calling goroutine
  blocks for ever in \<^verbatim>\<open>sync.Mutex.Lock\<close> (\<open>Deadlock\<close>), or it panics. Every operation
  returns the outcome together with the state in which it ended.
\<close>

datatype result = OK | Err error | Deadlock | Panic

subsection \<open>The object store and the process globals\<close>

text \<open>
  The S3 service is outside the repository; it is modelled as a store of objects keyed
  by bucket and key, a trace of the API calls made, and lists that say which calls the
  service answers with an error. The package-level variable \<^verbatim>\<open>dryRun\<close> and the lines
  written with \<^verbatim>\<open>log.Printf\<close> live in the same record. The two progress lines that print
  elapsed time, in \<^verbatim>\<open>run\<close>, are not recorded.
\<close>

datatype s3_call =
    ListCall string string bool
  | GetCall string string
  | PutCall string string bytes

record world =
  dryRun :: bool
  logged :: "string list"
  objects :: "((string \<times> string) \<times> bytes) list"
  calls :: "s3_call list"
  config_fails :: bool
  list_fails :: "string list"
  get_fails :: "string list"
  read_fails :: "string list"
  put_fails :: "string list"

text \<open>\<^verbatim>\<open>strings.HasPrefix\<close>, \<^verbatim>\<open>strings.TrimPrefix\<close>, \<^verbatim>\<open>strings.TrimSuffix\<close>.\<close>

definition HasPrefix :: "string \<Rightarrow> string \<Rightarrow> bool" where
  "HasPrefix s p = (take (length p) s = p)"

definition TrimPrefix :: "string \<Rightarrow> string \<Rightarrow> string" where
  "TrimPrefix s p = (if HasPrefix s p then drop (length p) s else s)"

definition TrimSuffix :: "string \<Rightarrow> string \<Rightarrow> string" where
  "TrimSuffix s x = (if HasPrefix (rev s) (rev x) then take (length s - length x) s else s)"

text \<open>
  \<^verbatim>\<open>ListObjectsV2\<close> without a delimiter: the keys of the bucket under the prefix, in
  the order in which S3 lists them, which is the byte order of the keys (the order of
  \<open>string\<close> here). All pages are read at once.
\<close>

definition ListObjectsV2 :: "string \<Rightarrow> string \<Rightarrow> world \<Rightarrow> string list option \<times> world" where
  "ListObjectsV2 bucket pfx w =
     (let w1 = w\<lparr>calls := calls w @ [ListCall bucket pfx False]\<rparr>
      in if pfx \<in> set (list_fails w) then (None, w1)
         else (Some (sort (map (\<lambda>ob. snd (fst ob))
                 (filter (\<lambda>ob. fst (fst ob) = bucket \<and> HasPrefix (snd (fst ob)) pfx) (objects w)))),
               w1))"

text \<open>
  \<^verbatim>\<open>ListObjectsV2\<close> with the delimiter \<^verbatim>\<open>"/"\<close>: the common prefixes, that is, for each
  key under the prefix with a \<^verbatim>\<open>/\<close> after it, the key up to and including that \<^verbatim>\<open>/\<close>,
  each once, in the same order.
\<close>

definition ListCommonPrefixes :: "string \<Rightarrow> string \<Rightarrow> world \<Rightarrow> string list option \<times> world" where
  "ListCommonPrefixes bucket pfx w =
     (let w1 = w\<lparr>calls := calls w @ [ListCall bucket pfx True]\<rparr>
      in if pfx \<in> set (list_fails w) then (None, w1)
         else (Some (sort (remdups
                 (map (\<lambda>ob. pfx @ takeWhile (\<lambda>c. c \<noteq> CHR ''/'') (drop (length pfx) (snd (fst ob))) @ ''/'')
                   (filter (\<lambda>ob. fst (fst ob) = bucket \<and> HasPrefix (snd (fst ob)) pfx \<and>
                                CHR ''/'' \<in> set (drop (length pfx) (snd (fst ob))))
                      (objects w))))),
               w1))"

text \<open>
  \<^verbatim>\<open>GetObject\<close> followed by reading the body: the stored bytes, or the error of the call
  or of the read.
\<close>

definition GetObject :: "string \<Rightarrow> string \<Rightarrow> world \<Rightarrow> (error + bytes) \<times> world" where
  "GetObject bucket key w =
     (let w1 = w\<lparr>calls := calls w @ [GetCall bucket key]\<rparr>
      in if key \<in> set (get_fails w) then (Inl (GetObjectError key), w1)
         else (case map_of (objects w) (bucket, key) of
                 None \<Rightarrow> (Inl (GetObjectError key), w1)
               | Some body \<Rightarrow>
                   if key \<in> set (read_fails w) then (Inl (ReadContentError key), w1)
                   else (Inr body, w1)))"

text \<open>\<^verbatim>\<open>PutObject\<close>: \<open>True\<close> when the service stored the body, \<open>False\<close> when it returned an error.\<close>

definition PutObject :: "string \<Rightarrow> string \<Rightarrow> bytes \<Rightarrow> world \<Rightarrow> bool \<times> world" where
  "PutObject bucket key body w =
     (let w1 = w\<lparr>calls := calls w @ [PutCall bucket key body]\<rparr>
      in if key \<in> set (put_fails w) then (False, w1)
         else (True, w1\<lparr>objects := filter (\<lambda>ob. fst ob \<noteq> (bucket, key)) (objects w1)
                                       @ [((bucket, key), body)]\<rparr>))"

text \<open>The \<^verbatim>\<open>PutObject\<close> calls of a trace, in order.\<close>

fun is_put :: "s3_call \<Rightarrow> bool" where
  "is_put (PutCall b k body) = True"
| "is_put c = False"

definition puts :: "world \<Rightarrow> s3_call list" where
  "puts w = filter is_put (calls w)"

fun put_body :: "s3_call \<Rightarrow> bytes" where
  "put_body (PutCall b k body) = body"
| "put_body c = []"

subsection \<open>The aggregator\<close>

text \<open>
  \<^verbatim>\<open>type aggregator struct\<close>. The field \<^verbatim>\<open>client\<close> is a handle to the service, whose state
  is in \<open>world\<close>. \<open>mu\<close> is \<open>True\<close> while the mutex is held.
\<close>

record aggregator =
  sourceBucket :: string
  sourcePrefix :: string
  destBucket :: string
  destPrefix :: string
  currentBuffer :: bytes
  currentSize :: int
  fileCounter :: int
  mu :: bool

text \<open>
  The two files differ in three places only: where an object is read, where a content is
  appended, and where the body of an upload is built. \<open>Plain\<close> is \<^verbatim>\<open>part_003\<close>. \<open>Gzip gz gunzip\<close> is
  \<^verbatim>\<open>part_004\<close>, where \<open>gz\<close> stands for writing through a \<^verbatim>\<open>gzip.Writer\<close> into a
  \<^verbatim>\<open>bytes.Buffer\<close> and closing it (which cannot fail: the error branches after it are
  dead), and \<open>gunzip\<close> for \<^verbatim>\<open>gzip.NewReader\<close> followed by \<^verbatim>\<open>io.ReadAll\<close>. The first
  fails when the bytes do not begin with a gzip header (an empty body included), the second
  when the stream is damaged or cut short after the header.
\<close>

datatype gunzip_error = HeaderError | StreamError

datatype variant = Plain | Gzip "bytes \<Rightarrow> bytes" "bytes \<Rightarrow> gunzip_error + bytes"

text \<open>
  What \<^verbatim>\<open>processObject\<close> hands to \<^verbatim>\<open>writeContent\<close> for the stored bytes of an object.
  In \<^verbatim>\<open>part_004\<close> a failing \<^verbatim>\<open>gzip.NewReader\<close> gives
  \<^verbatim>\<open>error creating gzip reader for <key>\<close> and a failing \<^verbatim>\<open>io.ReadAll\<close> gives
  \<^verbatim>\<open>error reading content from <key>\<close>.
\<close>

fun read_content :: "variant \<Rightarrow> string \<Rightarrow> bytes \<Rightarrow> error + bytes" where
  "read_content Plain key body = Inr body"
| "read_content (Gzip gz gunzip) key body =
     (case gunzip body of
        Inl HeaderError \<Rightarrow> Inl (GzipReaderError key)
      | Inl StreamError \<Rightarrow> Inl (ReadContentError key)
      | Inr c \<Rightarrow> Inr c)"

text \<open>What \<^verbatim>\<open>writeContent\<close> appends to the buffer for a content.\<close>

fun item_bytes :: "variant \<Rightarrow> bytes \<Rightarrow> bytes" where
  "item_bytes Plain content = content"
| "item_bytes (Gzip gz gunzip) content = gz content"

text \<open>The body \<^verbatim>\<open>uploadBuffer\<close> sends for a buffer.\<close>

fun bundle_bytes :: "variant \<Rightarrow> bytes \<Rightarrow> bytes" where
  "bundle_bytes Plain buf = buf"
| "bundle_bytes (Gzip gz gunzip) buf = gz buf"

text \<open>
  The buffer once the body has been built: \<^verbatim>\<open>part_004\<close> builds it with
  \<^verbatim>\<open>a.currentBuffer.WriteTo(gzWriter)\<close>, which drains the buffer; \<^verbatim>\<open>part_003\<close> reads
  \<^verbatim>\<open>a.currentBuffer.Bytes()\<close>, which leaves it as it is.
\<close>

fun after_body :: "variant \<Rightarrow> bytes \<Rightarrow> bytes" where
  "after_body Plain buf = buf"
| "after_body (Gzip gz gunzip) buf = []"

text \<open>
  \<^verbatim>\<open>sync.Mutex\<close> is not reentrant: \<^verbatim>\<open>Lock\<close> on a mutex that is held blocks until some
  goroutine unlocks it. The only \<^verbatim>\<open>Unlock\<close> calls of the program are the deferred ones
  of the two functions below, each run by the goroutine that took the lock when its function
  returns. The operations of the model run one after the other, so when \<^verbatim>\<open>Lock\<close> finds the
  mutex held, the holder is either the calling goroutine itself or a goroutine that is
  blocked already; in both cases nobody will unlock, and the call blocks for ever. \<open>Lock\<close>
  is \<open>None\<close> then.
\<close>

definition Lock :: "aggregator \<Rightarrow> aggregator option" where
  "Lock a = (if mu a then None else Some (a\<lparr>mu := True\<rparr>))"

definition Unlock :: "aggregator \<Rightarrow> aggregator" where
  "Unlock a = a\<lparr>mu := False\<rparr>"

text \<open>\<^verbatim>\<open>defer a.mu.Unlock()\<close>: runs when the function returns or panics, not while it is blocked.\<close>

definition deferred_Unlock :: "result \<times> aggregator \<times> world \<Rightarrow> result \<times> aggregator \<times> world" where
  "deferred_Unlock x = (case x of (r, a, w) \<Rightarrow> if r = Deadlock then (r, a, w) else (r, Unlock a, w))"

text \<open>\<^verbatim>\<open>uploadBuffer\<close> after \<^verbatim>\<open>a.mu.Lock()\<close> has returned.\<close>

definition uploadBuffer_locked :: "variant \<Rightarrow> aggregator \<Rightarrow> world \<Rightarrow> result \<times> aggregator \<times> world" where
  "uploadBuffer_locked v a w =
     (if length (currentBuffer a) = 0 then (OK, a, w)
      else
        (let a1 = a\<lparr>fileCounter := wrap64 (fileCounter a + 1)\<rparr>;
             key = destPrefix a1 @ ''aggregated_'' @ fmt_03d (fileCounter a1) @ ''.gz'';
             body = bundle_bytes v (currentBuffer a1);
             a2 = a1\<lparr>currentBuffer := after_body v (currentBuffer a1)\<rparr>
         in if dryRun w then
              (case humanizeBytes (int (length body)) of
                 None \<Rightarrow> (Panic, a2, w)
               | Some h \<Rightarrow>
                   (OK, a2\<lparr>currentBuffer := [], currentSize := 0\<rparr>,
                    w\<lparr>logged := logged w @
                       [''Dry run: would upload '' @ h @ '' to '' @ destBucket a2 @ ''/'' @ key]\<rparr>))
            else
              (case PutObject (destBucket a2) key body w of
                 (False, w1) \<Rightarrow> (Err UploadError, a2, w1)
               | (True, w1) \<Rightarrow> (OK, a2\<lparr>currentBuffer := [], currentSize := 0\<rparr>, w1))))"

definition uploadBuffer :: "variant \<Rightarrow> aggregator \<Rightarrow> world \<Rightarrow> result \<times> aggregator \<times> world" where
  "uploadBuffer v a w =
     (case Lock a of
        None \<Rightarrow> (Deadlock, a, w)
      | Some a0 \<Rightarrow> deferred_Unlock (uploadBuffer_locked v a0 w))"

text \<open>
  \<^verbatim>\<open>writeContent\<close> after \<^verbatim>\<open>a.mu.Lock()\<close> has returned. \<^verbatim>\<open>bytes.Buffer.Write\<close> returns a
  \<^verbatim>\<open>nil\<close> error always and panics with \<^verbatim>\<open>ErrTooLarge\<close> when the buffer cannot grow to the
  new length, which is the case at the latest when that length exceeds \<open>maxInt\<close>.
\<close>

definition writeContent_locked ::
  "variant \<Rightarrow> aggregator \<Rightarrow> bytes \<Rightarrow> world \<Rightarrow> result \<times> aggregator \<times> world" where
  "writeContent_locked v a content w =
     (let c = item_bytes v content;
          (r, a1, w1) =
            (if wrap64 (currentSize a + int (length c)) \<ge> maxOutputSize
             then uploadBuffer v a w else (OK, a, w))
      in if r \<noteq> OK then (r, a1, w1)
         else if int (length (currentBuffer a1)) + int (length c) > maxInt then (Panic, a1, w1)
         else (OK, a1\<lparr>currentBuffer := currentBuffer a1 @ c,
                       currentSize := wrap64 (currentSize a1 + int (length c))\<rparr>, w1))"

definition writeContent ::
  "variant \<Rightarrow> aggregator \<Rightarrow> bytes \<Rightarrow> world \<Rightarrow> result \<times> aggregator \<times> world" where
  "writeContent v a content w =
     (case Lock a of
        None \<Rightarrow> (Deadlock, a, w)
      | Some a0 \<Rightarrow> deferred_Unlock (writeContent_locked v a0 content w))"

definition processObject ::
  "variant \<Rightarrow> aggregator \<Rightarrow> string \<Rightarrow> world \<Rightarrow> result \<times> aggregator \<times> world" where
  "processObject v a key w =
     (case GetObject (sourceBucket a) key w of
        (Inl e, w1) \<Rightarrow> (Err e, a, w1)
      | (Inr body, w1) \<Rightarrow>
          (case read_content v key body of
             Inl e \<Rightarrow> (Err e, a, w1)
           | Inr content \<Rightarrow> writeContent v a content w1))"

subsection \<open>One partition: run\<close>

text \<open>\<^verbatim>\<open>const workerCount = 4\<close>\<close>

definition workerCount :: nat where
  "workerCount = 4"

text \<open>
  \<^verbatim>\<open>run\<close> starts \<^verbatim>\<open>workerCount\<close> goroutines that take keys from the unbuffered
  channel \<^verbatim>\<open>objChan\<close> and call \<^verbatim>\<open>processObject\<close>; a worker whose call returns an error
  puts it into \<^verbatim>\<open>errChan\<close> (buffered, one slot per worker) and ends. The main goroutine
  sends the listed keys one by one:

  \<^verbatim>\<open>select { case err := <-errChan: close(objChan); return err; case objChan <- *obj.Key: ... }\<close>

  \<^verbatim>\<open>writeContent\<close>, the only part of \<^verbatim>\<open>processObject\<close> that touches the aggregator,
  runs under the mutex from its first statement to its last, so the aggregator sees the
  objects one after the other, in the order in which the workers take the lock. That order
  is the scheduler's choice; it is the parameter \<open>sched\<close>, which rearranges the listed
  keys. The trace records each fetch right before its append, in the same order. The second
  choice of the scheduler is the \<^verbatim>\<open>select\<close>: when an error is waiting in \<^verbatim>\<open>errChan\<close>
  and a worker is ready to take the key, either case may run. The parameter \<open>stop\<close>
  decides: \<open>stop n\<close> says that the main goroutine reads the error when it is about to
  send the key number \<open>n\<close>.

  \<open>send_keys\<close> is the loop over the keys together with the work of the pool.
  Its state, besides the aggregator and the world: the errors waiting in \<^verbatim>\<open>errChan\<close>, oldest
  first; \<open>idle\<close>, the number of workers that still take keys (a worker that returned an
  error has ended, a worker that is blocked in \<^verbatim>\<open>Lock\<close> never comes back); \<open>blocked\<close>,
  whether some worker is blocked for ever; and the number of keys sent so far. For each
  key:
  \<^item> an error is waiting and the scheduler picks that case, or no worker is left to take
    the key: \<^verbatim>\<open>run\<close> returns the oldest error, without the final flush;
  \<^item> no error is waiting and no worker is left: the \<^verbatim>\<open>select\<close> blocks for ever;
  \<^item> otherwise a worker takes the key and calls \<^verbatim>\<open>processObject\<close>. (Objects whose
    worker is still busy when \<^verbatim>\<open>run\<close> returns early are counted as processed: the
    goroutines go on after the return, and nothing reads the aggregator afterwards.)

  A panic in a worker ends the process.
\<close>

datatype intake =
    AllSent "error list" bool
  | Returned error
  | Stuck
  | Crashed

fun send_keys ::
  "variant \<Rightarrow> (nat \<Rightarrow> bool) \<Rightarrow> aggregator \<Rightarrow> world \<Rightarrow> error list \<Rightarrow> nat \<Rightarrow> bool \<Rightarrow> nat \<Rightarrow>
   string list \<Rightarrow> intake \<times> aggregator \<times> world" where
  "send_keys v stop a w errChan idle blocked n [] = (AllSent errChan blocked, a, w)"
| "send_keys v stop a w errChan idle blocked n (key # keys) =
     (if errChan \<noteq> [] \<and> (idle = 0 \<or> stop n) then (Returned (hd errChan), a, w)
      else if idle = 0 then (Stuck, a, w)
      else
        (case processObject v a key w of
           (OK, a1, w1) \<Rightarrow> send_keys v stop a1 w1 errChan idle blocked (Suc n) keys
         | (Err e, a1, w1) \<Rightarrow> send_keys v stop a1 w1 (errChan @ [e]) (idle - 1) blocked (Suc n) keys
         | (Deadlock, a1, w1) \<Rightarrow> send_keys v stop a1 w1 errChan (idle - 1) True (Suc n) keys
         | (Panic, a1, w1) \<Rightarrow> (Crashed, a1, w1)))"

text \<open>
  \<^verbatim>\<open>run\<close>. A listing error is returned at once. When every key has been sent, the code
  goes on with

  \<^verbatim>\<open>close(objChan); wg.Wait(); if err := a.uploadBuffer(ctx); err != nil { return err }\<close>
  \<^verbatim>\<open>select { case err := <-errChan: return err; default: ...; return nil }\<close>

  \<^verbatim>\<open>wg.Wait()\<close> does not return while a worker is blocked. Otherwise the final flush is
  made, also when errors are waiting in \<^verbatim>\<open>errChan\<close>: its error is returned if it has
  one, then the oldest error of the workers if there is one, else \<^verbatim>\<open>nil\<close>.
\<close>

definition run ::
  "variant \<Rightarrow> (string list \<Rightarrow> string list) \<Rightarrow> (nat \<Rightarrow> bool) \<Rightarrow> aggregator \<Rightarrow> world \<Rightarrow>
   result \<times> aggregator \<times> world" where
  "run v sched stop a w =
     (case ListObjectsV2 (sourceBucket a) (sourcePrefix a) w of
        (None, w1) \<Rightarrow> (Err ListObjectsError, a, w1)
      | (Some keys, w1) \<Rightarrow>
          (case send_keys v stop a w1 [] workerCount False 0 (sched keys) of
             (Returned e, a2, w2) \<Rightarrow> (Err e, a2, w2)
           | (Stuck, a2, w2) \<Rightarrow> (Deadlock, a2, w2)
           | (Crashed, a2, w2) \<Rightarrow> (Panic, a2, w2)
           | (AllSent errChan blocked, a2, w2) \<Rightarrow>
               if blocked then (Deadlock, a2, w2)
               else
                 (case uploadBuffer v a2 w2 of
                    (r, a3, w3) \<Rightarrow>
                      if r \<noteq> OK then (r, a3, w3)
                      else (case errChan of [] \<Rightarrow> (OK, a3, w3) | e # es \<Rightarrow> (Err e, a3, w3)))))"

subsection \<open>All partitions: processLogs\<close>

text \<open>\<^verbatim>\<open>strings.SplitN(s, "/", 2)\<close>\<close>

definition SplitN2 :: "string \<Rightarrow> string list" where
  "SplitN2 s =
     (if CHR ''/'' \<in> set s
      then [takeWhile (\<lambda>c. c \<noteq> CHR ''/'') s, tl (dropWhile (\<lambda>c. c \<noteq> CHR ''/'') s)]
      else [s])"

definition parseS3URI :: "string \<Rightarrow> error + string \<times> string" where
  "parseS3URI uri =
     (if \<not> HasPrefix uri ''s3://'' then Inl (InvalidS3URI uri)
      else
        (case SplitN2 (TrimPrefix uri ''s3://'') of
           [bucket, pfx] \<Rightarrow> Inr (bucket, pfx)
         | _ \<Rightarrow> Inl (InvalidS3URI uri)))"

text \<open>
  \<^verbatim>\<open>newAggregator\<close>: the fields it does not set have Go's zero values. Loading the SDK
  configuration may fail.
\<close>

definition newAggregator ::
  "string \<Rightarrow> string \<Rightarrow> string \<Rightarrow> string \<Rightarrow> world \<Rightarrow> error + aggregator" where
  "newAggregator sourceBucket' sourcePrefix' destBucket' destPrefix' w =
     (if config_fails w then Inl LoadConfigError
      else Inr \<lparr>sourceBucket = sourceBucket', sourcePrefix = sourcePrefix',
                destBucket = destBucket', destPrefix = destPrefix',
                currentBuffer = [], currentSize = 0, fileCounter = 0, mu = False\<rparr>)"

text \<open>
  The assignments at the head of the loop body of \<^verbatim>\<open>processLogs\<close> for one common prefix:
  the counter is reset and the source and destination prefixes are set. \<open>destPrefix0\<close> is the
  local variable \<^verbatim>\<open>destPrefix\<close> of \<^verbatim>\<open>processLogs\<close>.
\<close>

definition start_app :: "string \<Rightarrow> string \<Rightarrow> aggregator \<Rightarrow> string \<Rightarrow> aggregator" where
  "start_app date destPrefix0 agg appPrefix =
     (let app = TrimSuffix (TrimPrefix appPrefix (sourcePrefix agg)) ''/'';
          agg1 = agg\<lparr>fileCounter := 0\<rparr>;
          datePrefix = appPrefix @ date @ ''/'';
          agg2 = agg1\<lparr>sourcePrefix := datePrefix\<rparr>
      in agg2\<lparr>destPrefix := destPrefix0 @ app @ ''/'' @ date @ ''/''\<rparr>)"

text \<open>The loop over the common prefixes; the first run that does not return \<^verbatim>\<open>nil\<close> ends it.\<close>

fun apps_loop ::
  "variant \<Rightarrow> (string list \<Rightarrow> string list) \<Rightarrow> (nat \<Rightarrow> bool) \<Rightarrow> string \<Rightarrow> string \<Rightarrow>
   aggregator \<Rightarrow> world \<Rightarrow> string list \<Rightarrow> result \<times> aggregator \<times> world" where
  "apps_loop v sched stop date destPrefix0 agg w [] = (OK, agg, w)"
| "apps_loop v sched stop date destPrefix0 agg w (appPrefix # rest) =
     (case run v sched stop (start_app date destPrefix0 agg appPrefix) w of
        (r, agg', w') \<Rightarrow>
          if r = OK then apps_loop v sched stop date destPrefix0 agg' w' rest else (r, agg', w'))"

text \<open>
  \<^verbatim>\<open>processLogs\<close> of \<^verbatim>\<open>part_003\<close>, which is the body of \<^verbatim>\<open>handleRequest\<close> of
  \<^verbatim>\<open>part_004\<close> (there the two messages start with a capital letter).
\<close>

definition processLogs ::
  "variant \<Rightarrow> (string list \<Rightarrow> string list) \<Rightarrow> (nat \<Rightarrow> bool) \<Rightarrow> string \<Rightarrow> string \<Rightarrow> bool \<Rightarrow>
   world \<Rightarrow> result \<times> world" where
  "processLogs v sched stop date bucket dryRunFlag w =
     (if date = [] then (Err DateRequired, w)
      else if bucket = [] then (Err BucketRequired, w)
      else
        (let w0 = w\<lparr>dryRun := dryRunFlag\<rparr>
         in case parseS3URI (''s3://'' @ bucket @ ''/'') of
              Inl e \<Rightarrow> (Err e, w0)
            | Inr (sourceBucket', sourcePrefix') \<Rightarrow>
           (case parseS3URI (''s3://'' @ bucket @ ''/'') of
              Inl e \<Rightarrow> (Err e, w0)
            | Inr (destBucket', destPrefix') \<Rightarrow>
           (case newAggregator sourceBucket' sourcePrefix' destBucket' destPrefix' w0 of
              Inl e \<Rightarrow> (Err e, w0)
            | Inr agg \<Rightarrow>
           (case ListCommonPrefixes (sourceBucket agg) (sourcePrefix agg) w0 of
              (None, w1) \<Rightarrow> (Err ListAppsError, w1)
            | (Some appPrefixes, w1) \<Rightarrow>
                (case apps_loop v sched stop date destPrefix' agg w1 appPrefixes of
                   (r, agg', w') \<Rightarrow> (r, w')))))))"

text \<open>\<^verbatim>\<open>type LambdaInput struct\<close> and the Lambda entry point.\<close>

record LambdaInput =
  Date :: string
  Bucket :: string
  DryRun :: bool

definition handleRequest ::
  "variant \<Rightarrow> (string list \<Rightarrow> string list) \<Rightarrow> (nat \<Rightarrow> bool) \<Rightarrow> LambdaInput \<Rightarrow> world \<Rightarrow>
   result \<times> world" where
  "handleRequest v sched stop event w =
     processLogs v sched stop (Date event) (Bucket event) (DryRun event) w"

text \<open>
  \<^verbatim>\<open>main\<close> of \<^verbatim>\<open>part_003\<close> with \<^verbatim>\<open>-cli\<close>: \<^verbatim>\<open>log.Fatal\<close> ends the process with the message or
  the error it is given.
\<close>

definition main_cli ::
  "(string list \<Rightarrow> string list) \<Rightarrow> (nat \<Rightarrow> bool) \<Rightarrow> string \<Rightarrow> string \<Rightarrow> bool \<Rightarrow> world \<Rightarrow>
   result \<times> world" where
  "main_cli sched stop date bucket dryRunFlag w =
     (if date = [] \<or> bucket = [] then (Err CLIArgsFatal, w)
      else processLogs Plain sched stop date bucket dryRunFlag w)"

subsection \<open>What a partition holds\<close>

text \<open>
  The keys \<^verbatim>\<open>run\<close> is given by the listing, and the content \<^verbatim>\<open>processObject\<close> reads for
  a key (the stored bytes in \<^verbatim>\<open>part_003\<close>, the decompressed bytes in \<^verbatim>\<open>part_004\<close>),
  without the trace: the source objects of a partition and their contents.
\<close>

definition listed :: "world \<Rightarrow> string \<Rightarrow> string \<Rightarrow> string list" where
  "listed w bucket pfx =
     sort (map (\<lambda>ob. snd (fst ob))
       (filter (\<lambda>ob. fst (fst ob) = bucket \<and> HasPrefix (snd (fst ob)) pfx) (objects w)))"

definition content_of :: "variant \<Rightarrow> world \<Rightarrow> string \<Rightarrow> string \<Rightarrow> bytes option" where
  "content_of v w bucket key =
     (case map_of (objects w) (bucket, key) of
        None \<Rightarrow> None
      | Some body \<Rightarrow> (case read_content v key body of Inl e \<Rightarrow> None | Inr c \<Rightarrow> Some c))"

text \<open>The total size of the contents of the given keys, in bytes.\<close>

definition total_size :: "variant \<Rightarrow> world \<Rightarrow> string \<Rightarrow> string list \<Rightarrow> nat" where
  "total_size v w bucket keys =
     sum_list (map (\<lambda>k. case content_of v w bucket k of None \<Rightarrow> 0 | Some c \<Rightarrow> length c) keys)"

text \<open>
  The key \<^verbatim>\<open>uploadBuffer\<close> builds when it is entered in state \<open>a\<close> with a buffer that is
  not empty: \<^verbatim>\<open>fmt.Sprintf("%saggregated_%03d.gz", a.destPrefix, a.fileCounter)\<close> after
  \<^verbatim>\<open>a.fileCounter++\<close>.
\<close>

definition bundle_key :: "aggregator \<Rightarrow> string" where
  "bundle_key a = destPrefix a @ ''aggregated_'' @ fmt_03d (wrap64 (fileCounter a + 1)) @ ''.gz''"

text \<open>
  The common prefixes \<^verbatim>\<open>processLogs\<close> is given by its listing, without the trace: the
  partitions of a run, in the order in which the loop takes them.
\<close>

definition common_prefixes :: "world \<Rightarrow> string \<Rightarrow> string \<Rightarrow> string list" where
  "common_prefixes w bucket pfx =
     sort (remdups
       (map (\<lambda>ob. pfx @ takeWhile (\<lambda>c. c \<noteq> CHR ''/'') (drop (length pfx) (snd (fst ob))) @ ''/'')
          (filter (\<lambda>ob. fst (fst ob) = bucket \<and> HasPrefix (snd (fst ob)) pfx \<and>
                       CHR ''/'' \<in> set (drop (length pfx) (snd (fst ob))))
             (objects w))))"

text \<open>
  A call is the first bundle of the partition that \<^verbatim>\<open>processLogs\<close> has set up in
  state \<open>s\<close>: a \<^verbatim>\<open>PutObject\<close> into the destination bucket under the key made of the
  destination prefix of \<open>s\<close> and \<^verbatim>\<open>aggregated_001.gz\<close>.
\<close>

fun is_first_bundle :: "aggregator \<Rightarrow> s3_call \<Rightarrow> bool" where
  "is_first_bundle s (PutCall b k body) =
     (b = destBucket s \<and> k = destPrefix s @ ''aggregated_001.gz'')"
| "is_first_bundle s c = False"

text \<open>
  \<open>first_bundles date destPrefix0 agg appPrefixes cs\<close>: the calls \<open>cs\<close> are made up of
  the partitions' first bundles, in the order of the partitions. Going through the common
  prefixes as the loop of \<^verbatim>\<open>processLogs\<close> does, from the aggregator \<open>agg\<close>, each
  partition either has no call in \<open>cs\<close>, or has exactly one, which is the first bundle of
  the state the loop sets up for it (\<open>start_app\<close>).
\<close>

fun first_bundles :: "string \<Rightarrow> string \<Rightarrow> aggregator \<Rightarrow> string list \<Rightarrow> s3_call list \<Rightarrow> bool" where
  "first_bundles date destPrefix0 agg [] cs = (cs = [])"
| "first_bundles date destPrefix0 agg (appPrefix # rest) [] = True"
| "first_bundles date destPrefix0 agg (appPrefix # rest) (c # cs) =
     (first_bundles date destPrefix0 (start_app date destPrefix0 agg appPrefix) rest (c # cs) \<or>
      (is_first_bundle (start_app date destPrefix0 agg appPrefix) c \<and>
       first_bundles date destPrefix0 (start_app date destPrefix0 agg appPrefix) rest cs))"

text \<open>
  The states of the aggregator a program run can be in between two operations: the state
  \<^verbatim>\<open>newAggregator\<close> returns, and from a state of this kind the state after the
  assignments of \<^verbatim>\<open>processLogs\<close>, after a \<^verbatim>\<open>writeContent\<close>, however it ended, and
  after an \<^verbatim>\<open>uploadBuffer\<close> that returned \<^verbatim>\<open>nil\<close>. (When \<^verbatim>\<open>uploadBuffer\<close> returns an
  error, \<^verbatim>\<open>run\<close> and \<^verbatim>\<open>processLogs\<close> return it and the aggregator is not used again.)
\<close>

inductive reachable :: "variant \<Rightarrow> aggregator \<Rightarrow> bool" for v :: variant where
  init: "newAggregator sb sp db dp w = Inr a \<Longrightarrow> reachable v a"
| app: "reachable v a \<Longrightarrow> reachable v (start_app date dp0 a appPrefix)"
| append: "reachable v a \<Longrightarrow> writeContent v a content w = (r, a', w') \<Longrightarrow> reachable v a'"
| flush: "reachable v a \<Longrightarrow> uploadBuffer v a w = (OK, a', w') \<Longrightarrow> reachable v a'"

subsection \<open>Example inputs\<close>

text \<open>
  A bucket with three partitions. \<open>web\<close> has two objects for the first of January,
  \<open>api\<close> has one, and the only object of \<open>cron\<close> for that day is empty.
\<close>

definition ex_world :: world where
  "ex_world = \<lparr>dryRun = False, logged = [],
     objects = [((''logs'', ''web/2024-01-01/a.log''), [1, 2, 3]),
                ((''logs'', ''web/2024-01-01/b.log''), [4, 5]),
                ((''logs'', ''web/2024-01-02/c.log''), [9]),
                ((''logs'', ''api/2024-01-01/x.log''), [6]),
                ((''logs'', ''cron/2024-01-01/e.log''), [])],
     calls = [], config_fails = False, list_fails = [], get_fails = [], read_fails = [],
     put_fails = []\<rparr>"

text \<open>The aggregator as \<^verbatim>\<open>processLogs\<close> sets it up for a partition of that bucket.\<close>

definition ex_agg :: "string \<Rightarrow> aggregator" where
  "ex_agg app = \<lparr>sourceBucket = ''logs'', sourcePrefix = app @ ''/2024-01-01/'',
     destBucket = ''logs'', destPrefix = app @ ''/2024-01-01/'',
     currentBuffer = [], currentSize = 0, fileCounter = 0, mu = False\<rparr>"

text \<open>
  A stand-in for gzip in examples of the \<^verbatim>\<open>part_004\<close> variant. A member is the content
  with the byte 1 before each of its bytes, closed by the byte 0; a stream is one or more
  members one after the other, and decompressing a stream gives the contents of its members
  in order, as \<^verbatim>\<open>gzip.Reader\<close> does for a multi-member gzip stream. Bytes that do not
  begin like a member are refused at the header, the empty stream included, as
  \<^verbatim>\<open>gzip.NewReader\<close> does; a stream that goes wrong later is refused while it is read.
\<close>

definition ex_gz :: "bytes \<Rightarrow> bytes" where
  "ex_gz x = concat (map (\<lambda>b. [1, b]) x) @ [0]"

fun ex_members :: "bytes \<Rightarrow> bytes option" where
  "ex_members [] = Some []"
| "ex_members [t] = (if t = 0 then Some [] else None)"
| "ex_members (t # b # rest) =
     (if t = 0 then ex_members (b # rest)
      else if t = 1 then map_option (\<lambda>r. b # r) (ex_members rest)
      else None)"

definition ex_gunzip :: "bytes \<Rightarrow> gunzip_error + bytes" where
  "ex_gunzip x =
     (case x of
        [] \<Rightarrow> Inl HeaderError
      | t # rest \<Rightarrow>
          if t = 0 \<or> t = 1
          then (case ex_members x of None \<Rightarrow> Inl StreamError | Some c \<Rightarrow> Inr c)
          else Inl HeaderError)"

text \<open>The partition \<open>web\<close> of the example bucket with its two objects stored compressed.\<close>

definition gz_world :: world where
  "gz_world = ex_world\<lparr>objects :=
     [((''logs'', ''web/2024-01-01/a.log''), ex_gz [1, 2, 3]),
      ((''logs'', ''web/2024-01-01/b.log''), ex_gz [4, 5])]\<rparr>"

text \<open>
  A bucket whose partition \<open>big\<close> holds two objects of 250 MB each, half of
  \<open>maxOutputSize\<close>.
\<close>

definition big_world :: world where
  "big_world = \<lparr>dryRun = False, logged = [],
     objects = [((''logs'', ''big/2024-01-01/a.log''), replicate 262144000 0),
                ((''logs'', ''big/2024-01-01/b.log''), replicate 262144000 0)],
     calls = [], config_fails = False, list_fails = [], get_fails = [], read_fails = [],
     put_fails = []\<rparr>"

text \<open>The number a string of decimal digits denotes, to read back what \<open>digits\<close> prints.\<close>

definition dec_value :: "string \<Rightarrow> nat" where
  "dec_value s = foldl (\<lambda>a c. 10 * a + (of_char c - 48)) 0 s"

section \<open>Properties\<close>

subsection \<open>Formatting\<close>

lemma wrap64_id: "- (2 ^ 63) \<le> x \<Longrightarrow> x < 2 ^ 63 \<Longrightarrow> wrap64 x = x"
  by (simp add: wrap64_def)

lemma digit_char: "d < 10 \<Longrightarrow> of_char (''0123456789'' ! d) = (48 + d :: nat)"
proof -
  assume "d < 10"
  then have "d \<in> {0, 1, 2, 3, 4, 5, 6, 7, 8, 9}" by auto
  then show ?thesis by auto
qed

lemma dec_value_digits: "dec_value (digits n) = n"
proof (induction n rule: digits.induct)
  case (1 n)
  show ?case
  proof (cases "n < 10")
    case True
    then show ?thesis by (simp add: digits.simps [of n] dec_value_def digit_char)
  next
    case False
    then have "dec_value (digits (n div 10)) = n div 10" using 1 by simp
    then show ?thesis using False
      by (simp add: digits.simps [of n] dec_value_def digit_char)
  qed
qed

lemma humanize_loop_exp:
  "0 \<le> n \<Longrightarrow> n < 1024 ^ Suc m \<Longrightarrow> 0 \<le> ex \<Longrightarrow> ex + int m < 2 ^ 63 \<Longrightarrow>
   ex \<le> snd (humanize_loop n dv ex) \<and> snd (humanize_loop n dv ex) \<le> ex + int m"
proof (induction m arbitrary: n dv ex)
  case 0
  then show ?case by (simp add: humanize_loop.simps [of n])
next
  case (Suc m)
  show ?case
  proof (cases "n \<ge> 1024")
    case False
    then show ?thesis using Suc.prems by (simp add: humanize_loop.simps [of n])
  next
    case True
    from Suc.prems have lt: "n div 1024 < 1024 ^ Suc m"
      by (simp add: div_less_iff_less_mult)
    have nn: "0 \<le> n div 1024" using Suc.prems by simp
    have w: "wrap64 (ex + 1) = ex + 1"
      using Suc.prems by (intro wrap64_id) auto
    have "ex + 1 \<le> snd (humanize_loop (n div 1024) (wrap64 (dv * 1024)) (ex + 1)) \<and>
          snd (humanize_loop (n div 1024) (wrap64 (dv * 1024)) (ex + 1)) \<le> ex + 1 + int m"
      using Suc.prems by (intro Suc.IH [OF nn lt]) auto
    then show ?thesis using True w by (simp add: humanize_loop.simps [of n])
  qed
qed

lemma humanize_exp_bound:
  assumes "0 \<le> n" "n \<le> maxInt"
  shows "0 \<le> humanize_exp n \<and> humanize_exp n \<le> 5"
proof -
  have "n div 1024 < 1024 ^ Suc 5"
    using assms by (simp add: maxInt_def div_less_iff_less_mult)
  moreover have "0 \<le> n div 1024" using assms by simp
  ultimately show ?thesis
    using humanize_loop_exp [of "n div 1024" 5 0 1024] by (simp add: humanize_exp_def)
qed

lemma humanizeBytes_Some:
  assumes "0 \<le> n" "n \<le> maxInt"
  shows "\<exists>s. humanizeBytes n = Some s"
proof (cases "n < 1024")
  case True
  then show ?thesis by (simp add: humanizeBytes_def)
next
  case False
  with humanize_exp_bound [OF assms] show ?thesis
    by (cases "humanize_loop (n div 1024) 1024 0") (simp add: humanizeBytes_def humanize_exp_def)
qed

subsection \<open>C10: humanizeBytes does not panic\<close>

text \<open>
  Claim C10. For every non-negative machine integer \<open>n\<close> (\<open>0 \<le> n \<le> maxInt\<close>),
  \<open>humanizeBytes\<close> returns a string: the function is total (its loop terminates, by the
  termination proof of \<open>humanize_loop\<close>) and the result is not the panic of an index out of
  range. For \<open>n \<ge> 1024\<close> the unit exponent it computes is at least 0 and below the length
  of \<^verbatim>\<open>"KMGTPE"\<close>. For \<open>n < 1024\<close> the result is the decimal digits of \<open>n\<close>, which read
  back as \<open>n\<close>, followed by \<^verbatim>\<open>" B"\<close>.
\<close>

theorem humanizeBytes_total:
  assumes "0 \<le> n" and "n \<le> maxInt"
  shows "(\<exists>s. humanizeBytes n = Some s) \<and>
         (n < 1024 \<longrightarrow> humanizeBytes n = Some (digits (nat n) @ '' B'') \<and>
                       int (dec_value (digits (nat n))) = n) \<and>
         (1024 \<le> n \<longrightarrow> 0 \<le> humanize_exp n \<and> humanize_exp n < int (length ''KMGTPE''))"
proof -
  have ex: "0 \<le> humanize_exp n \<and> humanize_exp n \<le> 5"
    using assms by (rule humanize_exp_bound)
  have small: "n < 1024 \<Longrightarrow> humanizeBytes n = Some (digits (nat n) @ '' B'')"
    using assms by (simp add: humanizeBytes_def fmt_d_def)
  have rd: "int (dec_value (digits (nat n))) = n"
    using assms by (simp add: dec_value_digits)
  show ?thesis using ex small rd humanizeBytes_Some [OF assms] by auto
qed

theorem humanizeBytes_total_witness:
  "(0::int) \<le> 1023 \<and> (1023::int) \<le> maxInt \<and> humanizeBytes 1023 = Some ''1023 B'' \<and>
   (0::int) \<le> 524288000 \<and> (524288000::int) \<le> maxInt \<and> humanize_exp 524288000 = 1 \<and>
   humanize_exp 524288000 < int (length ''KMGTPE'') \<and>
   humanizeBytes 524288000 = Some ''500.0 MB''"
proof -
  have a: "(0::int) \<le> 1023" and b: "(1023::int) \<le> maxInt" by (simp_all add: maxInt_def)
  have c: "(0::int) \<le> 524288000" and d: "(524288000::int) \<le> maxInt"
    by (simp_all add: maxInt_def)
  have e: "humanize_exp 524288000 = 1" by code_simp
  have f: "humanizeBytes 524288000 = Some ''500.0 MB''" by code_simp
  have g: "digits (nat 1023) = ''1023''" by code_simp
  from humanizeBytes_total [OF a b]
  have "humanizeBytes 1023 = Some (digits (nat 1023) @ '' B'')" by simp
  with g have h: "humanizeBytes 1023 = Some ''1023 B''" by (simp only: append.simps)
  from humanizeBytes_total [OF c d]
  have i: "humanize_exp 524288000 < int (length ''KMGTPE'')" by simp
  from a b h c d e f i show ?thesis by blast
qed

subsection \<open>The two operations under the mutex\<close>

lemma mu_False_id: "\<not> mu a \<Longrightarrow> a\<lparr>mu := False\<rparr> = a"
  by (cases a) simp

lemma uploadBuffer_held: "mu a \<Longrightarrow> uploadBuffer v a w = (Deadlock, a, w)"
  by (simp add: uploadBuffer_def Lock_def)

lemma uploadBuffer_empty:
  "\<not> mu a \<Longrightarrow> currentBuffer a = [] \<Longrightarrow> uploadBuffer v a w = (OK, a, w)"
  by (simp add: uploadBuffer_def Lock_def uploadBuffer_locked_def deferred_Unlock_def Unlock_def
      mu_False_id)

lemma uploadBuffer_dry:
  assumes "\<not> mu a" "currentBuffer a \<noteq> []" "dryRun w"
    and "humanizeBytes (int (length (bundle_bytes v (currentBuffer a)))) = Some h"
  shows "uploadBuffer v a w =
    (OK, a\<lparr>currentBuffer := [], currentSize := 0, fileCounter := wrap64 (fileCounter a + 1)\<rparr>,
     w\<lparr>logged := logged w @
        [''Dry run: would upload '' @ h @ '' to '' @ destBucket a @ ''/'' @ destPrefix a @
         ''aggregated_'' @ fmt_03d (wrap64 (fileCounter a + 1)) @ ''.gz'']\<rparr>)"
  using assms
  by (simp add: uploadBuffer_def Lock_def uploadBuffer_locked_def deferred_Unlock_def Unlock_def
      Let_def mu_False_id)

lemma uploadBuffer_live:
  assumes "\<not> mu a" "currentBuffer a \<noteq> []" "\<not> dryRun w"
  shows "uploadBuffer v a w =
    (let key = destPrefix a @ ''aggregated_'' @ fmt_03d (wrap64 (fileCounter a + 1)) @ ''.gz'';
         body = bundle_bytes v (currentBuffer a);
         w1 = snd (PutObject (destBucket a) key body w)
     in if key \<in> set (put_fails w)
        then (Err UploadError,
              a\<lparr>currentBuffer := after_body v (currentBuffer a),
                fileCounter := wrap64 (fileCounter a + 1)\<rparr>, w1)
        else (OK, a\<lparr>currentBuffer := [], currentSize := 0,
                   fileCounter := wrap64 (fileCounter a + 1)\<rparr>, w1))"
  using assms
  by (simp add: uploadBuffer_def Lock_def uploadBuffer_locked_def deferred_Unlock_def Unlock_def
      Let_def PutObject_def mu_False_id)

lemma writeContent_held: "mu a \<Longrightarrow> writeContent v a c w = (Deadlock, a, w)"
  by (simp add: writeContent_def Lock_def)

lemma writeContent_free:
  assumes "\<not> mu a"
  shows "writeContent v a content w =
    (let c = item_bytes v content
     in if maxOutputSize \<le> wrap64 (currentSize a + int (length c))
        then (Deadlock, a\<lparr>mu := True\<rparr>, w)
        else if maxInt < int (length (currentBuffer a)) + int (length c) then (Panic, a, w)
        else (OK, a\<lparr>currentBuffer := currentBuffer a @ c,
                   currentSize := wrap64 (currentSize a + int (length c))\<rparr>, w))"
  using assms
  by (simp add: writeContent_def Lock_def writeContent_locked_def deferred_Unlock_def Unlock_def
      Let_def uploadBuffer_held mu_False_id)

lemma uploadBuffer_OK:
  assumes "uploadBuffer v a w = (OK, a', w')"
  shows "\<not> mu a \<and>
    (if currentBuffer a = [] then a' = a \<and> w' = w
     else a' = a\<lparr>currentBuffer := [], currentSize := 0,
                    fileCounter := wrap64 (fileCounter a + 1)\<rparr> \<and>
          (if dryRun w then calls w' = calls w \<and> dryRun w'
           else calls w' = calls w @
                  [PutCall (destBucket a) (bundle_key a) (bundle_bytes v (currentBuffer a))] \<and>
                \<not> dryRun w'))"
proof -
  have nm: "\<not> mu a" using assms by (auto simp: uploadBuffer_held)
  show ?thesis
  proof (cases "currentBuffer a = []")
    case True
    with nm assms show ?thesis by (simp add: uploadBuffer_empty)
  next
    case False
    show ?thesis
    proof (cases "dryRun w")
      case True
      with nm False assms show ?thesis
        by (auto simp: uploadBuffer_def Lock_def uploadBuffer_locked_def deferred_Unlock_def
            Unlock_def Let_def mu_False_id split: option.splits)
    next
      case live: False
      with nm False assms show ?thesis
        by (auto simp: uploadBuffer_live Let_def PutObject_def bundle_key_def split: if_splits)
    qed
  qed
qed

lemma uploadBuffer_OK_dry:
  assumes "uploadBuffer v a w = (OK, a', w')" and "dryRun w" and "currentBuffer a \<noteq> []"
  shows "\<exists>h. humanizeBytes (int (length (bundle_bytes v (currentBuffer a)))) = Some h \<and>
             logged w' = logged w @
               [''Dry run: would upload '' @ h @ '' to '' @ destBucket a @ ''/'' @ bundle_key a] \<and>
             calls w' = calls w"
proof -
  have nm: "\<not> mu a" using assms(1) by (auto simp: uploadBuffer_held)
  with assms show ?thesis
    by (auto simp: uploadBuffer_def Lock_def uploadBuffer_locked_def deferred_Unlock_def
        Unlock_def Let_def bundle_key_def split: option.splits)
qed

subsection \<open>The worker pool and run\<close>

lemma processObject_world:
  "processObject v a key w = (r, a', w') \<Longrightarrow>
   w' = w\<lparr>calls := calls w @ [GetCall (sourceBucket a) key]\<rparr>"
  by (cases "mu a")
     (auto simp: processObject_def GetObject_def Let_def writeContent_held writeContent_free
           split: if_splits option.splits sum.splits)

lemma processObject_OK:
  assumes "processObject v a key w = (OK, a', w')"
  shows "\<exists>c. content_of v w (sourceBucket a) key = Some c \<and>
             \<not> mu a \<and>
             wrap64 (currentSize a + int (length (item_bytes v c))) < maxOutputSize \<and>
             int (length (currentBuffer a)) + int (length (item_bytes v c)) \<le> maxInt \<and>
             a' = a\<lparr>currentBuffer := currentBuffer a @ item_bytes v c,
                     currentSize := wrap64 (currentSize a + int (length (item_bytes v c)))\<rparr>"
  using assms
  by (cases "mu a")
     (auto simp: processObject_def GetObject_def Let_def writeContent_held writeContent_free
           content_of_def
           split: if_splits option.splits sum.splits)

lemma processObject_frame:
  "processObject v a key w = (r, a', w') \<Longrightarrow>
   fileCounter a' = fileCounter a \<and> destPrefix a' = destPrefix a \<and> destBucket a' = destBucket a \<and>
   sourceBucket a' = sourceBucket a \<and> sourcePrefix a' = sourcePrefix a"
  by (cases "mu a")
     (auto simp: processObject_def GetObject_def Let_def writeContent_held writeContent_free
           split: if_splits option.splits sum.splits)

lemma content_of_calls [simp]:
  "content_of v (w\<lparr>calls := cs\<rparr>) = content_of v w"
  by (intro ext) (simp add: content_of_def)

lemma puts_GetCall [simp]:
  "puts (w\<lparr>calls := calls w @ [GetCall b k]\<rparr>) = puts w"
  by (simp add: puts_def)

lemma send_keys_step:
  assumes "send_keys v stop a w errs idle blocked n (key # keys) = (e, a', w')"
  shows "(a' = a \<and> w' = w \<and> (e = Stuck \<or> (\<exists>x. e = Returned x))) \<or>
         (\<exists>r a1 w1. processObject v a key w = (r, a1, w1) \<and>
            ((e = Crashed \<and> a' = a1 \<and> w' = w1) \<or>
             (\<exists>errs' idle' blocked'.
                send_keys v stop a1 w1 errs' idle' blocked' (Suc n) keys = (e, a', w') \<and>
                (if r = OK then errs' = errs \<and> blocked' = blocked
                 else errs' \<noteq> [] \<or> blocked'))))"
proof (cases "errs \<noteq> [] \<and> (idle = 0 \<or> stop n)")
  case True
  with assms show ?thesis by auto
next
  case False
  show ?thesis
  proof (cases "idle = 0")
    case True
    with False assms show ?thesis by auto
  next
    case idle: False
    obtain r a1 w1 where po: "processObject v a key w = (r, a1, w1)"
      by (cases "processObject v a key w") auto
    show ?thesis
    proof (cases r)
      case OK
      with False idle po assms
      have "send_keys v stop a1 w1 errs idle blocked (Suc n) keys = (e, a', w')"
        by (auto split: if_splits)
      with po OK show ?thesis by auto
    next
      case (Err x)
      with False idle po assms
      have "send_keys v stop a1 w1 (errs @ [x]) (idle - 1) blocked (Suc n) keys = (e, a', w')"
        by (auto split: if_splits)
      with po Err show ?thesis by auto
    next
      case Deadlock
      with False idle po assms
      have "send_keys v stop a1 w1 errs (idle - 1) True (Suc n) keys = (e, a', w')"
        by (auto split: if_splits)
      with po Deadlock show ?thesis by auto
    next
      case Panic
      with False idle po assms have "e = Crashed \<and> a' = a1 \<and> w' = w1"
        by (auto split: if_splits)
      with po show ?thesis by blast
    qed
  qed
qed

lemma send_keys_world:
  "send_keys v stop a w errs idle blocked n keys = (e, a', w') \<Longrightarrow>
   \<exists>m \<le> length keys. w' = w\<lparr>calls := calls w @ map (GetCall (sourceBucket a)) (take m keys)\<rparr>"
proof (induction keys arbitrary: a w errs idle blocked n)
  case Nil
  then show ?case by simp
next
  case (Cons key keys)
  from send_keys_step [OF Cons.prems]
  consider (here) "w' = w"
    | (crash) r a1 w1 where "processObject v a key w = (r, a1, w1)" "w' = w1"
    | (more) r a1 w1 errs' idle' blocked' where "processObject v a key w = (r, a1, w1)"
        "send_keys v stop a1 w1 errs' idle' blocked' (Suc n) keys = (e, a', w')"
    by blast
  then show ?case
  proof cases
    case here
    then have "w' = w\<lparr>calls := calls w @ map (GetCall (sourceBucket a)) (take 0 (key # keys))\<rparr>"
      by simp
    then show ?thesis by (intro exI [of _ 0]) simp
  next
    case crash
    from processObject_world [OF crash(1)] crash(2)
    have "w' = w\<lparr>calls := calls w @ map (GetCall (sourceBucket a)) (take 1 (key # keys))\<rparr>"
      by simp
    then show ?thesis by (intro exI [of _ 1]) simp
  next
    case more
    have w1: "w1 = w\<lparr>calls := calls w @ [GetCall (sourceBucket a) key]\<rparr>"
      using more(1) by (rule processObject_world)
    have sb: "sourceBucket a1 = sourceBucket a"
      using processObject_frame [OF more(1)] by simp
    from Cons.IH [OF more(2)] obtain m where m: "m \<le> length keys"
      and w': "w' = w1\<lparr>calls := calls w1 @ map (GetCall (sourceBucket a1)) (take m keys)\<rparr>"
      by blast
    from w' w1 sb
    have "w' = w\<lparr>calls := calls w @ map (GetCall (sourceBucket a)) (take (Suc m) (key # keys))\<rparr>"
      by simp
    with m show ?thesis by (intro exI [of _ "Suc m"]) simp
  qed
qed

lemma send_keys_frame:
  "send_keys v stop a w errs idle blocked n keys = (e, a', w') \<Longrightarrow>
   fileCounter a' = fileCounter a \<and> destPrefix a' = destPrefix a \<and> destBucket a' = destBucket a \<and>
   sourceBucket a' = sourceBucket a \<and> sourcePrefix a' = sourcePrefix a"
proof (induction keys arbitrary: a w errs idle blocked n)
  case Nil
  then show ?case by simp
next
  case (Cons key keys)
  from send_keys_step [OF Cons.prems]
  consider (here) "a' = a"
    | (crash) r a1 w1 where "processObject v a key w = (r, a1, w1)" "a' = a1"
    | (more) r a1 w1 errs' idle' blocked' where "processObject v a key w = (r, a1, w1)"
        "send_keys v stop a1 w1 errs' idle' blocked' (Suc n) keys = (e, a', w')"
    by blast
  then show ?case
  proof cases
    case here
    then show ?thesis by simp
  next
    case crash
    from processObject_frame [OF crash(1)] crash(2) show ?thesis by simp
  next
    case more
    from Cons.IH [OF more(2)] processObject_frame [OF more(1)] show ?thesis by simp
  qed
qed

text \<open>
  When every key was sent, no error is waiting and no worker is blocked, every
  \<^verbatim>\<open>processObject\<close> returned \<^verbatim>\<open>nil\<close>.
\<close>

lemma send_keys_clean:
  "send_keys v stop a w errs idle blocked n keys = (AllSent [] False, a', w') \<Longrightarrow>
   errs = [] \<and> \<not> blocked \<and>
   (\<exists>cs. map (content_of v w (sourceBucket a)) keys = map Some cs \<and>
        a' = a\<lparr>currentBuffer := currentBuffer a @ concat (map (item_bytes v) cs),
                currentSize := currentSize a'\<rparr> \<and>
        w' = w\<lparr>calls := calls w @ map (GetCall (sourceBucket a)) keys\<rparr>)"
proof (induction keys arbitrary: a w errs idle blocked n)
  case Nil
  then show ?case by simp
next
  case (Cons key keys)
  from send_keys_step [OF Cons.prems]
  obtain r a1 w1 errs' idle' blocked' where po: "processObject v a key w = (r, a1, w1)"
    and sk: "send_keys v stop a1 w1 errs' idle' blocked' (Suc n) keys = (AllSent [] False, a', w')"
    and st: "if r = OK then errs' = errs \<and> blocked' = blocked else errs' \<noteq> [] \<or> blocked'"
    by auto
  from Cons.IH [OF sk] obtain cs where
    clean: "errs' = []" "\<not> blocked'" and
    cs: "map (content_of v w1 (sourceBucket a1)) keys = map Some cs" and
    a': "a' = a1\<lparr>currentBuffer := currentBuffer a1 @ concat (map (item_bytes v) cs),
                  currentSize := currentSize a'\<rparr>" and
    w': "w' = w1\<lparr>calls := calls w1 @ map (GetCall (sourceBucket a1)) keys\<rparr>"
    by blast
  from st clean have r: "r = OK" and pre: "errs = []" "\<not> blocked"
    by (auto split: if_splits)
  from processObject_OK [OF po [unfolded r]] obtain c where
    c: "content_of v w (sourceBucket a) key = Some c" and
    a1: "a1 = a\<lparr>currentBuffer := currentBuffer a @ item_bytes v c,
                  currentSize := wrap64 (currentSize a + int (length (item_bytes v c)))\<rparr>"
    by blast
  have w1: "w1 = w\<lparr>calls := calls w @ [GetCall (sourceBucket a) key]\<rparr>"
    using po by (rule processObject_world)
  have "map (content_of v w (sourceBucket a)) (key # keys) = map Some (c # cs)"
    using c cs a1 w1 by simp
  moreover have "a' = a\<lparr>currentBuffer := currentBuffer a @ concat (map (item_bytes v) (c # cs)),
                currentSize := currentSize a'\<rparr>"
    using a' a1 by simp
  moreover have "w' = w\<lparr>calls := calls w @ map (GetCall (sourceBucket a)) (key # keys)\<rparr>"
    using w' w1 a1 by simp
  ultimately show ?case using pre by blast
qed

lemma send_keys_size:
  "send_keys v stop a w errs idle blocked n keys = (AllSent [] False, a', w') \<Longrightarrow>
   currentSize a = int (length (currentBuffer a)) \<Longrightarrow> currentSize a < maxOutputSize \<Longrightarrow>
   currentSize a' = int (length (currentBuffer a')) \<and> currentSize a' < maxOutputSize"
proof (induction keys arbitrary: a w errs idle blocked n)
  case Nil
  then show ?case by simp
next
  case (Cons key keys)
  from send_keys_step [OF Cons.prems(1)]
  obtain r a1 w1 errs' idle' blocked' where po: "processObject v a key w = (r, a1, w1)"
    and sk: "send_keys v stop a1 w1 errs' idle' blocked' (Suc n) keys = (AllSent [] False, a', w')"
    and st: "if r = OK then errs' = errs \<and> blocked' = blocked else errs' \<noteq> [] \<or> blocked'"
    by auto
  from send_keys_clean [OF sk] st have r: "r = OK"
    by (auto split: if_splits)
  from processObject_OK [OF po [unfolded r]] obtain c where
    lt: "wrap64 (currentSize a + int (length (item_bytes v c))) < maxOutputSize" and
    le: "int (length (currentBuffer a)) + int (length (item_bytes v c)) \<le> maxInt" and
    a1: "a1 = a\<lparr>currentBuffer := currentBuffer a @ item_bytes v c,
                  currentSize := wrap64 (currentSize a + int (length (item_bytes v c)))\<rparr>"
    by blast
  have "wrap64 (currentSize a + int (length (item_bytes v c))) =
        currentSize a + int (length (item_bytes v c))"
    using le Cons.prems(2) by (intro wrap64_id) (auto simp: maxInt_def)
  with lt a1 Cons.prems(2)
  have inv1: "currentSize a1 = int (length (currentBuffer a1))" and lt1: "currentSize a1 < maxOutputSize"
    by simp_all
  from Cons.IH [OF sk inv1 lt1] show ?case .
qed

lemma puts_calls_append: "puts (w\<lparr>calls := calls w @ cs\<rparr>) = puts w @ filter is_put cs"
  by (simp add: puts_def)

lemma filter_is_put_GetCall [simp]: "filter is_put (map (GetCall b) ks) = []"
  by (induction ks) auto

lemma ListObjectsV2_listed:
  "ListObjectsV2 b p w =
     (if p \<in> set (list_fails w) then None else Some (listed w b p),
      w\<lparr>calls := calls w @ [ListCall b p False]\<rparr>)"
  by (simp add: ListObjectsV2_def listed_def Let_def)

text \<open>
  However \<^verbatim>\<open>run\<close> ends: it has listed, the pool has fetched some of the keys, and the
  state is the one the pool left or the one the final flush left.
\<close>

lemma run_shape:
  assumes "run v sched stop a w = (r, a', w')"
  shows "\<exists>a2 w2 m.
     w2 = w\<lparr>calls := calls w @ ListCall (sourceBucket a) (sourcePrefix a) False #
            map (GetCall (sourceBucket a)) (take m (sched (listed w (sourceBucket a) (sourcePrefix a))))\<rparr> \<and>
     fileCounter a2 = fileCounter a \<and> destPrefix a2 = destPrefix a \<and> destBucket a2 = destBucket a \<and>
     sourceBucket a2 = sourceBucket a \<and> sourcePrefix a2 = sourcePrefix a \<and>
     ((a' = a2 \<and> w' = w2) \<or> (\<exists>r3. uploadBuffer v a2 w2 = (r3, a', w')))"
proof (cases "sourcePrefix a \<in> set (list_fails w)")
  case True
  with assms have "a' = a" "w' = w\<lparr>calls := calls w @ [ListCall (sourceBucket a) (sourcePrefix a) False]\<rparr>"
    by (auto simp: run_def ListObjectsV2_listed)
  then have "w' = w\<lparr>calls := calls w @ ListCall (sourceBucket a) (sourcePrefix a) False #
            map (GetCall (sourceBucket a)) (take 0 (sched (listed w (sourceBucket a) (sourcePrefix a))))\<rparr>"
    by simp
  with \<open>a' = a\<close> show ?thesis by blast
next
  case False
  let ?w1 = "w\<lparr>calls := calls w @ [ListCall (sourceBucket a) (sourcePrefix a) False]\<rparr>"
  let ?keys = "sched (listed w (sourceBucket a) (sourcePrefix a))"
  obtain e a2 w2 where sk: "send_keys v stop a ?w1 [] workerCount False 0 ?keys = (e, a2, w2)"
    by (cases "send_keys v stop a ?w1 [] workerCount False 0 ?keys") auto
  from send_keys_world [OF sk] obtain m where
    "w2 = ?w1\<lparr>calls := calls ?w1 @ map (GetCall (sourceBucket a)) (take m ?keys)\<rparr>"
    by blast
  then have w2: "w2 = w\<lparr>calls := calls w @ ListCall (sourceBucket a) (sourcePrefix a) False #
            map (GetCall (sourceBucket a)) (take m ?keys)\<rparr>"
    by simp
  note fr = send_keys_frame [OF sk]
  have "(a' = a2 \<and> w' = w2) \<or> (\<exists>r3. uploadBuffer v a2 w2 = (r3, a', w'))"
    using assms False sk
    by (cases "uploadBuffer v a2 w2")
       (auto simp: run_def ListObjectsV2_listed split: intake.splits if_splits list.splits)
  with w2 fr show ?thesis by blast
qed

lemma run_OK:
  assumes "run v sched stop a w = (OK, a', w')"
  shows "\<exists>cs a2 w2.
     map (content_of v w (sourceBucket a)) (sched (listed w (sourceBucket a) (sourcePrefix a)))
       = map Some cs \<and>
     a2 = a\<lparr>currentBuffer := currentBuffer a @ concat (map (item_bytes v) cs),
             currentSize := currentSize a2\<rparr> \<and>
     (currentSize a = int (length (currentBuffer a)) \<and> currentSize a < maxOutputSize \<longrightarrow>
        currentSize a2 = int (length (currentBuffer a2)) \<and> currentSize a2 < maxOutputSize) \<and>
     puts w2 = puts w \<and> dryRun w2 = dryRun w \<and> logged w2 = logged w \<and>
     calls w2 = calls w @ ListCall (sourceBucket a) (sourcePrefix a) False #
                  map (GetCall (sourceBucket a)) (sched (listed w (sourceBucket a) (sourcePrefix a))) \<and>
     uploadBuffer v a2 w2 = (OK, a', w')"
proof -
  let ?b = "sourceBucket a" and ?p = "sourcePrefix a"
  let ?w1 = "w\<lparr>calls := calls w @ [ListCall ?b ?p False]\<rparr>"
  let ?keys = "sched (listed w ?b ?p)"
  from assms have lf: "?p \<notin> set (list_fails w)"
    by (auto simp: run_def ListObjectsV2_listed split: if_splits)
  obtain e a2 w2 where sk: "send_keys v stop a ?w1 [] workerCount False 0 ?keys = (e, a2, w2)"
    by (cases "send_keys v stop a ?w1 [] workerCount False 0 ?keys") auto
  with assms lf have e: "e = AllSent [] False" and ub: "uploadBuffer v a2 w2 = (OK, a', w')"
    by (cases "uploadBuffer v a2 w2";
        auto simp: run_def ListObjectsV2_listed split: intake.splits if_splits list.splits)+
  from send_keys_clean [OF sk [unfolded e]] obtain cs where
    cs: "map (content_of v w ?b) ?keys = map Some cs" and
    a2: "a2 = a\<lparr>currentBuffer := currentBuffer a @ concat (map (item_bytes v) cs),
                  currentSize := currentSize a2\<rparr>" and
    w2: "w2 = ?w1\<lparr>calls := calls ?w1 @ map (GetCall ?b) ?keys\<rparr>"
    by auto
  have sz: "currentSize a = int (length (currentBuffer a)) \<and> currentSize a < maxOutputSize \<longrightarrow>
        currentSize a2 = int (length (currentBuffer a2)) \<and> currentSize a2 < maxOutputSize"
    using send_keys_size [OF sk [unfolded e]] by blast
  have "puts w2 = puts w" "dryRun w2 = dryRun w" "logged w2 = logged w"
       "calls w2 = calls w @ ListCall ?b ?p False # map (GetCall ?b) ?keys"
    using w2 by (simp_all add: puts_def)
  with cs a2 sz ub show ?thesis by blast
qed

lemma map_item_bytes_Plain [simp]: "map (item_bytes Plain) cs = cs"
  by (induction cs) simp_all


lemma total_size_perm:
  "mset ks' = mset ks \<Longrightarrow> total_size v w b ks' = total_size v w b ks"
  unfolding total_size_def by (metis mset_map sum_mset_sum_list)

lemma total_size_contents:
  "map (content_of v w b) ks = map Some cs \<Longrightarrow> total_size v w b ks = length (concat cs)"
proof (induction ks arbitrary: cs)
  case Nil
  then show ?case by (simp add: total_size_def)
next
  case (Cons k ks)
  then obtain c cs' where cs: "cs = c # cs'" "content_of v w b k = Some c"
    "map (content_of v w b) ks = map Some cs'"
    by (cases cs) auto
  with Cons.IH [of cs'] show ?case by (simp add: total_size_def)
qed


subsection \<open>C1: what the bundles of a partition hold\<close>

lemma item_bytes_Gzip: "item_bytes (Gzip gz gunzip) = gz"
  by (intro ext) simp

text \<open>
  When a partition run returns without error (started with an empty buffer, as
  \<^verbatim>\<open>processLogs\<close> starts it), the workers appended the content of every listed source
  object exactly once: the contents \<open>cs\<close> they handed to \<^verbatim>\<open>writeContent\<close> are, as a
  multiset, the contents of the listed keys, in the order the scheduler chose. In live mode
  the run made at most one \<^verbatim>\<open>PutObject\<close> call, whose body is built from the buffer that
  holds exactly these contents. In a dry run no bundle is written; the run logs the one
  upload it would make, with the length of that same body.
\<close>

lemma run_bundles:
  assumes run: "run v sched stop a w = (OK, a', w')"
    and empty: "currentBuffer a = []"
    and perm: "mset (sched (listed w (sourceBucket a) (sourcePrefix a))) =
               mset (listed w (sourceBucket a) (sourcePrefix a))"
  shows "\<exists>cs.
     map (content_of v w (sourceBucket a)) (sched (listed w (sourceBucket a) (sourcePrefix a)))
       = map Some cs \<and>
     image_mset Some (mset cs) =
       image_mset (content_of v w (sourceBucket a)) (mset (listed w (sourceBucket a) (sourcePrefix a))) \<and>
     (\<not> dryRun w \<longrightarrow>
        puts w' = puts w @
          (if concat (map (item_bytes v) cs) = [] then []
           else [PutCall (destBucket a) (bundle_key a)
                   (bundle_bytes v (concat (map (item_bytes v) cs)))])) \<and>
     (dryRun w \<longrightarrow>
        puts w' = puts w \<and>
        (if concat (map (item_bytes v) cs) = [] then logged w' = logged w
         else \<exists>h. humanizeBytes (int (length (bundle_bytes v (concat (map (item_bytes v) cs)))))
                    = Some h \<and>
                  logged w' = logged w @
                    [''Dry run: would upload '' @ h @ '' to '' @ destBucket a @ ''/'' @
                     bundle_key a]))"
proof -
  let ?keys = "listed w (sourceBucket a) (sourcePrefix a)"
  from run_OK [OF run] obtain cs a2 w2 where
    cs: "map (content_of v w (sourceBucket a)) (sched ?keys) = map Some cs" and
    a2: "a2 = a\<lparr>currentBuffer := currentBuffer a @ concat (map (item_bytes v) cs),
                  currentSize := currentSize a2\<rparr>" and
    p2: "puts w2 = puts w" and d2: "dryRun w2 = dryRun w" and l2: "logged w2 = logged w" and
    ub: "uploadBuffer v a2 w2 = (OK, a', w')"
    by blast
  let ?X = "concat (map (item_bytes v) cs)"
  have a2': "a2 = a\<lparr>currentBuffer := ?X, currentSize := currentSize a2\<rparr>"
    using a2 empty by simp
  have buf: "currentBuffer a2 = ?X"
    by (subst a2') simp
  have db: "destBucket a2 = destBucket a" and bk: "bundle_key a2 = bundle_key a"
    by (subst a2', simp add: bundle_key_def)+
  have "mset (map Some cs) = mset (map (content_of v w (sourceBucket a)) (sched ?keys))"
    using cs by simp
  also have "\<dots> = image_mset (content_of v w (sourceBucket a)) (mset ?keys)"
    using perm by (metis mset_map)
  finally have ms: "image_mset Some (mset cs) =
      image_mset (content_of v w (sourceBucket a)) (mset ?keys)"
    by simp
  have live: "puts w' = puts w @
          (if ?X = [] then [] else [PutCall (destBucket a) (bundle_key a) (bundle_bytes v ?X)])"
    if nd: "\<not> dryRun w"
    using uploadBuffer_OK [OF ub] buf nd d2 p2 db bk
    by (auto simp: puts_def split: if_splits)
  have dry: "puts w' = puts w \<and>
        (if ?X = [] then logged w' = logged w
         else \<exists>h. humanizeBytes (int (length (bundle_bytes v ?X))) = Some h \<and>
                  logged w' = logged w @
                    [''Dry run: would upload '' @ h @ '' to '' @ destBucket a @ ''/'' @
                     bundle_key a])"
    if d: "dryRun w"
  proof (cases "?X = []")
    case True
    with uploadBuffer_OK [OF ub] buf p2 l2 show ?thesis by simp
  next
    case False
    from d d2 have d2': "dryRun w2" by simp
    from False buf have ne: "currentBuffer a2 \<noteq> []" by simp
    from uploadBuffer_OK_dry [OF ub d2' ne] obtain h where
      "humanizeBytes (int (length (bundle_bytes v (currentBuffer a2)))) = Some h"
      "logged w' = logged w2 @
         [''Dry run: would upload '' @ h @ '' to '' @ destBucket a2 @ ''/'' @ bundle_key a2]"
      "calls w' = calls w2"
      by blast
    with False buf db bk l2 p2 show ?thesis by (auto simp: puts_def)
  qed
  from cs ms live dry show ?thesis by blast
qed

text \<open>
  In \<^verbatim>\<open>part_003\<close> the bodies of the \<^verbatim>\<open>PutObject\<close> calls of such a run, in call order
  (which is the order of the counter), concatenated, are the concatenation of the contents
  of the source objects, byte for byte, each object once. So when the source objects are
  gzip streams, the bundle is the multi-member gzip stream of the same members, and
  decompressing it gives the decompressed objects one after the other.
\<close>

lemma plain_bundles_hold_every_object:
  assumes run: "run Plain sched stop a w = (OK, a', w')"
    and empty: "currentBuffer a = []"
    and perm: "mset (sched (listed w (sourceBucket a) (sourcePrefix a))) =
               mset (listed w (sourceBucket a) (sourcePrefix a))"
  shows "\<exists>cs.
     map (content_of Plain w (sourceBucket a)) (sched (listed w (sourceBucket a) (sourcePrefix a)))
       = map Some cs \<and>
     image_mset Some (mset cs) =
       image_mset (content_of Plain w (sourceBucket a))
         (mset (listed w (sourceBucket a) (sourcePrefix a))) \<and>
     (\<not> dryRun w \<longrightarrow> (\<exists>new. puts w' = puts w @ new \<and> concat (map put_body new) = concat cs)) \<and>
     (dryRun w \<longrightarrow> puts w' = puts w)"
proof -
  from run_bundles [OF run empty perm] obtain cs where
    cs: "map (content_of Plain w (sourceBucket a)) (sched (listed w (sourceBucket a) (sourcePrefix a)))
       = map Some cs" and
    ms: "image_mset Some (mset cs) =
       image_mset (content_of Plain w (sourceBucket a))
         (mset (listed w (sourceBucket a) (sourcePrefix a)))" and
    live0: "\<not> dryRun w \<longrightarrow>
        puts w' = puts w @
          (if concat (map (item_bytes Plain) cs) = [] then []
           else [PutCall (destBucket a) (bundle_key a)
                   (bundle_bytes Plain (concat (map (item_bytes Plain) cs)))])" and
    dry: "dryRun w \<longrightarrow> puts w' = puts w"
    by blast
  have live: "\<not> dryRun w \<longrightarrow>
        puts w' = puts w @
          (if concat cs = [] then []
           else [PutCall (destBucket a) (bundle_key a) (concat cs)])"
    using live0 by (simp del: concat_eq_Nil_conv)
  have "\<exists>new. puts w' = puts w @ new \<and> concat (map put_body new) = concat cs" if "\<not> dryRun w"
  proof (cases "concat cs = []")
    case True
    with live that have "puts w' = puts w @ [] \<and> concat (map put_body []) = concat cs" by simp
    then show ?thesis by blast
  next
    case False
    with live that
    have "puts w' = puts w @ [PutCall (destBucket a) (bundle_key a) (concat cs)] \<and>
          concat (map put_body [PutCall (destBucket a) (bundle_key a) (concat cs)]) = concat cs"
      by simp
    then show ?thesis by blast
  qed
  with cs ms dry show ?thesis by blast
qed

text \<open>
  Claim C1 (what the code does). In \<^verbatim>\<open>part_004\<close> a partition run in live mode that
  returns without error, started with an empty buffer, has read every listed object once,
  and its bundle is the gzip stream of the concatenated gzip streams of the contents:
  \<^verbatim>\<open>writeContent\<close> compresses each content before it appends it, and \<^verbatim>\<open>uploadBuffer\<close>
  compresses the whole buffer again. Decompressing the bundle gives the compressed members,
  not the contents of the source objects.
\<close>

theorem bundle_is_compressed_twice:
  assumes run: "run (Gzip gz gunzip) sched stop a w = (OK, a', w')"
    and empty: "currentBuffer a = []"
    and live: "\<not> dryRun w"
    and perm: "mset (sched (listed w (sourceBucket a) (sourcePrefix a))) =
               mset (listed w (sourceBucket a) (sourcePrefix a))"
  shows "\<exists>cs.
     map (content_of (Gzip gz gunzip) w (sourceBucket a))
       (sched (listed w (sourceBucket a) (sourcePrefix a))) = map Some cs \<and>
     image_mset Some (mset cs) =
       image_mset (content_of (Gzip gz gunzip) w (sourceBucket a))
         (mset (listed w (sourceBucket a) (sourcePrefix a))) \<and>
     puts w' = puts w @
       (if concat (map gz cs) = [] then []
        else [PutCall (destBucket a) (bundle_key a) (gz (concat (map gz cs)))])"
proof -
  let ?v = "Gzip gz gunzip"
  from run_bundles [OF run empty perm] obtain cs where
    cs: "map (content_of ?v w (sourceBucket a)) (sched (listed w (sourceBucket a) (sourcePrefix a)))
       = map Some cs" and
    ms: "image_mset Some (mset cs) =
       image_mset (content_of ?v w (sourceBucket a))
         (mset (listed w (sourceBucket a) (sourcePrefix a)))" and
    live0: "\<not> dryRun w \<longrightarrow>
        puts w' = puts w @
          (if concat (map (item_bytes ?v) cs) = [] then []
           else [PutCall (destBucket a) (bundle_key a)
                   (bundle_bytes ?v (concat (map (item_bytes ?v) cs)))])"
    by blast
  have "puts w' = puts w @
       (if concat (map gz cs) = [] then []
        else [PutCall (destBucket a) (bundle_key a) (gz (concat (map gz cs)))])"
    using live0 live by (simp add: item_bytes_Gzip del: concat_eq_Nil_conv)
  with cs ms show ?thesis by blast
qed

theorem bundle_is_compressed_twice_witness:
  "run (Gzip ex_gz ex_gunzip) id (\<lambda>n. False) (ex_agg ''web'') gz_world =
     (OK, (ex_agg ''web'')\<lparr>fileCounter := 1\<rparr>,
      gz_world\<lparr>objects := objects gz_world @
                   [((''logs'', ''web/2024-01-01/aggregated_001.gz''),
                     ex_gz (ex_gz [1, 2, 3] @ ex_gz [4, 5]))],
                calls := [ListCall ''logs'' ''web/2024-01-01/'' False,
                          GetCall ''logs'' ''web/2024-01-01/a.log'',
                          GetCall ''logs'' ''web/2024-01-01/b.log'',
                          PutCall ''logs'' ''web/2024-01-01/aggregated_001.gz''
                            (ex_gz (ex_gz [1, 2, 3] @ ex_gz [4, 5]))]\<rparr>) \<and>
   currentBuffer (ex_agg ''web'') = [] \<and> \<not> dryRun gz_world \<and>
   map (content_of (Gzip ex_gz ex_gunzip) gz_world (sourceBucket (ex_agg ''web'')))
     (id (listed gz_world (sourceBucket (ex_agg ''web'')) (sourcePrefix (ex_agg ''web'')))) =
     map Some [[1, 2, 3], [4, 5]] \<and>
   (\<exists>cs. map (content_of (Gzip ex_gz ex_gunzip) gz_world (sourceBucket (ex_agg ''web'')))
           (id (listed gz_world (sourceBucket (ex_agg ''web'')) (sourcePrefix (ex_agg ''web'')))) =
           map Some cs \<and>
         puts (gz_world\<lparr>objects := objects gz_world @
                   [((''logs'', ''web/2024-01-01/aggregated_001.gz''),
                     ex_gz (ex_gz [1, 2, 3] @ ex_gz [4, 5]))],
                calls := [ListCall ''logs'' ''web/2024-01-01/'' False,
                          GetCall ''logs'' ''web/2024-01-01/a.log'',
                          GetCall ''logs'' ''web/2024-01-01/b.log'',
                          PutCall ''logs'' ''web/2024-01-01/aggregated_001.gz''
                            (ex_gz (ex_gz [1, 2, 3] @ ex_gz [4, 5]))]\<rparr>) =
         puts gz_world @
           (if concat (map ex_gz cs) = [] then []
            else [PutCall (destBucket (ex_agg ''web'')) (bundle_key (ex_agg ''web''))
                    (ex_gz (concat (map ex_gz cs)))])) \<and>
   ex_gunzip (ex_gz (ex_gz [1, 2, 3] @ ex_gz [4, 5])) = Inr (ex_gz [1, 2, 3] @ ex_gz [4, 5]) \<and>
   ex_gunzip (ex_gz (ex_gz [1, 2, 3] @ ex_gz [4, 5])) \<noteq> Inr [1, 2, 3, 4, 5] \<and>
   map put_body (puts (snd (snd (run Plain id (\<lambda>n. False) (ex_agg ''web'') gz_world)))) =
     [ex_gz [1, 2, 3] @ ex_gz [4, 5]] \<and>
   ex_gunzip (ex_gz [1, 2, 3] @ ex_gz [4, 5]) = Inr [1, 2, 3, 4, 5]"
proof -
  let ?a' = "(ex_agg ''web'')\<lparr>fileCounter := 1\<rparr>"
  let ?w' = "gz_world\<lparr>objects := objects gz_world @
                   [((''logs'', ''web/2024-01-01/aggregated_001.gz''),
                     ex_gz (ex_gz [1, 2, 3] @ ex_gz [4, 5]))],
                calls := [ListCall ''logs'' ''web/2024-01-01/'' False,
                          GetCall ''logs'' ''web/2024-01-01/a.log'',
                          GetCall ''logs'' ''web/2024-01-01/b.log'',
                          PutCall ''logs'' ''web/2024-01-01/aggregated_001.gz''
                            (ex_gz (ex_gz [1, 2, 3] @ ex_gz [4, 5]))]\<rparr>"
  let ?L = "listed gz_world (sourceBucket (ex_agg ''web'')) (sourcePrefix (ex_agg ''web''))"
  have r: "run (Gzip ex_gz ex_gunzip) id (\<lambda>n. False) (ex_agg ''web'') gz_world = (OK, ?a', ?w')"
    by code_simp
  have e: "currentBuffer (ex_agg ''web'') = []" by code_simp
  have l: "\<not> dryRun gz_world" by code_simp
  have p: "mset (id ?L) = mset ?L" by simp
  have c: "map (content_of (Gzip ex_gz ex_gunzip) gz_world (sourceBucket (ex_agg ''web''))) (id ?L) =
     map Some [[1, 2, 3], [4, 5]]"
    by code_simp
  have g1: "ex_gunzip (ex_gz (ex_gz [1, 2, 3] @ ex_gz [4, 5])) = Inr (ex_gz [1, 2, 3] @ ex_gz [4, 5])"
    by code_simp
  have g2: "ex_gunzip (ex_gz (ex_gz [1, 2, 3] @ ex_gz [4, 5])) \<noteq> Inr [1, 2, 3, 4, 5]"
    by code_simp
  have pl: "map put_body (puts (snd (snd (run Plain id (\<lambda>n. False) (ex_agg ''web'') gz_world)))) =
     [ex_gz [1, 2, 3] @ ex_gz [4, 5]]"
    by code_simp
  have g3: "ex_gunzip (ex_gz [1, 2, 3] @ ex_gz [4, 5]) = Inr [1, 2, 3, 4, 5]" by code_simp
  from bundle_is_compressed_twice [OF r e l p]
  have "\<exists>cs. map (content_of (Gzip ex_gz ex_gunzip) gz_world (sourceBucket (ex_agg ''web''))) (id ?L) =
           map Some cs \<and>
         puts ?w' = puts gz_world @
           (if concat (map ex_gz cs) = [] then []
            else [PutCall (destBucket (ex_agg ''web'')) (bundle_key (ex_agg ''web''))
                    (ex_gz (concat (map ex_gz cs)))])"
    by blast
  with r e l c g1 g2 pl g3 show ?thesis by blast
qed

subsection \<open>C2: the number of bundles of a partition\<close>

lemma listed_in_store:
  assumes "k \<in> set (listed w b p)"
  shows "map_of (objects w) (b, k) \<noteq> None"
proof -
  from assms obtain ob where "ob \<in> set (objects w)" "fst (fst ob) = b" "snd (fst ob) = k"
    by (auto simp: listed_def)
  then have "(b, k) \<in> fst ` set (objects w)"
    by (metis image_eqI prod.collapse)
  then show ?thesis by (simp add: map_of_eq_None_iff)
qed

lemma total_size_calls [simp]: "total_size v (w\<lparr>calls := cs\<rparr>) = total_size v w"
  by (intro ext) (simp add: total_size_def)

text \<open>
  Objects of \<^verbatim>\<open>part_003\<close> that are fetched without error and stay below the threshold
  together with what is buffered are all appended: the pool ends with every key sent, no
  error waiting and no worker blocked.
\<close>

lemma processObject_Plain_small:
  assumes "\<not> mu a" and "currentSize a = int (length (currentBuffer a))"
    and "key \<notin> set (get_fails w)" and "key \<notin> set (read_fails w)"
    and "map_of (objects w) (sourceBucket a, key) = Some body"
    and "int (length (currentBuffer a)) + int (length body) < maxOutputSize"
  shows "processObject Plain a key w =
    (OK, a\<lparr>currentBuffer := currentBuffer a @ body,
            currentSize := int (length (currentBuffer a @ body))\<rparr>,
     w\<lparr>calls := calls w @ [GetCall (sourceBucket a) key]\<rparr>)"
proof -
  have "wrap64 (currentSize a + int (length body)) = currentSize a + int (length body)"
    using assms(2,6) by (intro wrap64_id) (auto simp: maxOutputSize_def)
  with assms show ?thesis
    by (simp add: processObject_def GetObject_def Let_def writeContent_free
        maxOutputSize_def maxInt_def)
qed

lemma send_keys_small:
  "\<not> mu a \<Longrightarrow> currentSize a = int (length (currentBuffer a)) \<Longrightarrow>
   \<forall>k \<in> set keys. k \<notin> set (get_fails w) \<and> k \<notin> set (read_fails w) \<and>
                   map_of (objects w) (sourceBucket a, k) \<noteq> None \<Longrightarrow>
   int (length (currentBuffer a)) + int (total_size Plain w (sourceBucket a) keys) < maxOutputSize \<Longrightarrow>
   0 < idle \<Longrightarrow>
   \<exists>cs. map (content_of Plain w (sourceBucket a)) keys = map Some cs \<and>
        send_keys Plain stop a w [] idle False n keys =
          (AllSent [] False,
           a\<lparr>currentBuffer := currentBuffer a @ concat cs,
             currentSize := int (length (currentBuffer a @ concat cs))\<rparr>,
           w\<lparr>calls := calls w @ map (GetCall (sourceBucket a)) keys\<rparr>)"
proof (induction keys arbitrary: a w n)
  case Nil
  then show ?case by (cases a) simp
next
  case (Cons key keys)
  let ?b = "sourceBucket a"
  from Cons.prems(3) obtain body where body: "map_of (objects w) (?b, key) = Some body"
    and ok: "key \<notin> set (get_fails w)" "key \<notin> set (read_fails w)"
    by auto
  have c: "content_of Plain w ?b key = Some body"
    using body by (simp add: content_of_def)
  have ts: "total_size Plain w ?b (key # keys) = length body + total_size Plain w ?b keys"
    using c by (simp add: total_size_def)
  let ?a1 = "a\<lparr>currentBuffer := currentBuffer a @ body,
               currentSize := int (length (currentBuffer a @ body))\<rparr>"
  let ?w1 = "w\<lparr>calls := calls w @ [GetCall ?b key]\<rparr>"
  have lt: "int (length (currentBuffer a)) + int (length body) < maxOutputSize"
    using Cons.prems(4) ts by simp
  have po: "processObject Plain a key w = (OK, ?a1, ?w1)"
    using Cons.prems(1,2) ok body lt by (rule processObject_Plain_small)
  have h1: "\<not> mu ?a1" "currentSize ?a1 = int (length (currentBuffer ?a1))"
    using Cons.prems(1) by simp_all
  have h3: "\<forall>k \<in> set keys. k \<notin> set (get_fails ?w1) \<and> k \<notin> set (read_fails ?w1) \<and>
                   map_of (objects ?w1) (sourceBucket ?a1, k) \<noteq> None"
    using Cons.prems(3) by simp
  have h4: "int (length (currentBuffer ?a1)) + int (total_size Plain ?w1 (sourceBucket ?a1) keys)
      < maxOutputSize"
    using Cons.prems(4) ts by simp
  from Cons.IH [OF h1 h3 h4 Cons.prems(5), of "Suc n"] obtain cs where
    cs: "map (content_of Plain ?w1 (sourceBucket ?a1)) keys = map Some cs" and
    sk: "send_keys Plain stop ?a1 ?w1 [] idle False (Suc n) keys =
          (AllSent [] False,
           ?a1\<lparr>currentBuffer := currentBuffer ?a1 @ concat cs,
                currentSize := int (length (currentBuffer ?a1 @ concat cs))\<rparr>,
           ?w1\<lparr>calls := calls ?w1 @ map (GetCall (sourceBucket ?a1)) keys\<rparr>)"
    by blast
  have "map (content_of Plain w ?b) (key # keys) = map Some (body # cs)"
    using c cs by simp
  moreover have "send_keys Plain stop a w [] idle False n (key # keys) =
          (AllSent [] False,
           a\<lparr>currentBuffer := currentBuffer a @ concat (body # cs),
             currentSize := int (length (currentBuffer a @ concat (body # cs)))\<rparr>,
           w\<lparr>calls := calls w @ map (GetCall ?b) (key # keys)\<rparr>)"
    using po sk Cons.prems(5) by simp
  ultimately show ?case by blast
qed

text \<open>
  Claim C2, as amended. A partition run of \<^verbatim>\<open>part_003\<close>, started as \<^verbatim>\<open>processLogs\<close>
  starts it (free mutex, empty buffer, counter reset), whose listing and fetches succeed
  and whose objects have a total size \<open>S\<close> below the threshold \<open>T = maxOutputSize\<close>,
  returns, and the number of bundles, which is the number of flushes attempted and the
  final value of the counter, is \<open>\<lceil>S/T\<rceil>\<close>, written \<open>(S + T - 1) div T\<close>: 1 when
  \<open>S > 0\<close>, and 0 when \<open>S = 0\<close>, in particular when no object is listed. The run
  returns \<^verbatim>\<open>nil\<close>, except that in live mode it returns the upload error when the service
  refuses the bundle. In live mode the number of bundles is the number of \<^verbatim>\<open>PutObject\<close>
  calls of the run; a dry run makes none.

  The claim as stated asks for at least one bundle whenever \<open>N > 0\<close>, and for at least
  \<open>\<lceil>S/T\<rceil>\<close> bundles for every \<open>S\<close>. The counterexample has both: a partition whose
  single object is empty (the buffer stays empty and the final flush returns at the test
  \<^verbatim>\<open>a.currentBuffer.Len() == 0\<close>), and a partition of two objects of 250 MB, where
  \<open>S = T\<close> and the run ends blocked with no bundle (claims C5 and C6).
\<close>

theorem bundle_count:
  assumes fresh: "\<not> mu a" "currentBuffer a = []" "currentSize a = 0" "fileCounter a = 0"
    and perm: "mset (sched (listed w (sourceBucket a) (sourcePrefix a))) =
               mset (listed w (sourceBucket a) (sourcePrefix a))"
    and lists: "sourcePrefix a \<notin> set (list_fails w)"
    and fetches: "\<forall>k \<in> set (listed w (sourceBucket a) (sourcePrefix a)).
                    k \<notin> set (get_fails w) \<and> k \<notin> set (read_fails w)"
    and small: "int (total_size Plain w (sourceBucket a) (listed w (sourceBucket a) (sourcePrefix a)))
                  < maxOutputSize"
  shows "\<exists>r a' w'. run Plain sched stop a w = (r, a', w') \<and>
         (r = OK \<or> r = Err UploadError) \<and>
         fileCounter a' =
           (int (total_size Plain w (sourceBucket a) (listed w (sourceBucket a) (sourcePrefix a)))
              + maxOutputSize - 1) div maxOutputSize \<and>
         fileCounter a' =
           (if total_size Plain w (sourceBucket a) (listed w (sourceBucket a) (sourcePrefix a)) = 0
            then 0 else 1) \<and>
         (if dryRun w then r = OK \<and> puts w' = puts w
          else (r = OK) =
                 (total_size Plain w (sourceBucket a) (listed w (sourceBucket a) (sourcePrefix a)) = 0 \<or>
                  bundle_key a \<notin> set (put_fails w)) \<and>
               int (length (puts w')) = int (length (puts w)) + fileCounter a')"
proof -
  let ?b = "sourceBucket a" and ?p = "sourcePrefix a"
  let ?L = "listed w ?b ?p"
  let ?K = "sched ?L"
  let ?S = "total_size Plain w ?b ?L"
  let ?w1 = "w\<lparr>calls := calls w @ [ListCall ?b ?p False]\<rparr>"
  have setK: "set ?K = set ?L" using perm by (rule mset_eq_setD)
  have SK: "total_size Plain w ?b ?K = ?S" using perm by (rule total_size_perm)
  have h2: "currentSize a = int (length (currentBuffer a))" using fresh by simp
  have h3: "\<forall>k \<in> set ?K. k \<notin> set (get_fails ?w1) \<and> k \<notin> set (read_fails ?w1) \<and>
                   map_of (objects ?w1) (?b, k) \<noteq> None"
    using fetches setK listed_in_store [of _ w ?b ?p] by simp
  have h4: "int (length (currentBuffer a)) + int (total_size Plain ?w1 ?b ?K) < maxOutputSize"
    using small SK fresh by simp
  have h5: "0 < workerCount" by (simp add: workerCount_def)
  from send_keys_small [OF fresh(1) h2 h3 h4 h5, of stop 0] obtain cs where
    cs: "map (content_of Plain ?w1 ?b) ?K = map Some cs" and
    sk: "send_keys Plain stop a ?w1 [] workerCount False 0 ?K =
          (AllSent [] False,
           a\<lparr>currentBuffer := currentBuffer a @ concat cs,
             currentSize := int (length (currentBuffer a @ concat cs))\<rparr>,
           ?w1\<lparr>calls := calls ?w1 @ map (GetCall ?b) ?K\<rparr>)"
    by blast
  let ?a2 = "a\<lparr>currentBuffer := concat cs, currentSize := int (length (concat cs))\<rparr>"
  let ?w2 = "w\<lparr>calls := calls w @ ListCall ?b ?p False # map (GetCall ?b) ?K\<rparr>"
  from sk fresh have sk2: "send_keys Plain stop a ?w1 [] workerCount False 0 ?K =
      (AllSent [] False, ?a2, ?w2)"
    by simp
  have S: "?S = length (concat cs)"
    using total_size_contents [of Plain ?w1 ?b ?K cs] cs SK by simp
  have rn: "run Plain sched stop a w = uploadBuffer Plain ?a2 ?w2"
    using lists sk2
    by (cases "uploadBuffer Plain ?a2 ?w2") (simp add: run_def ListObjectsV2_listed)
  have m2: "\<not> mu ?a2" using fresh by simp
  have p2: "puts ?w2 = puts w" by (simp add: puts_def)
  have k2: "bundle_key ?a2 = bundle_key a" by (simp add: bundle_key_def)
  have w1: "wrap64 (fileCounter a + 1) = 1" using fresh by (simp add: wrap64_def)
  have ceil: "(int ?S + maxOutputSize - 1) div maxOutputSize = (if ?S = 0 then 0 else 1)"
    using small by (auto simp: maxOutputSize_def)
  show ?thesis
  proof (cases "?S = 0")
    case True
    with S have "currentBuffer ?a2 = []" by simp
    with m2 have "uploadBuffer Plain ?a2 ?w2 = (OK, ?a2, ?w2)" by (rule uploadBuffer_empty)
    with rn have "run Plain sched stop a w = (OK, ?a2, ?w2)" by simp
    moreover have "fileCounter ?a2 = 0" using fresh by simp
    ultimately show ?thesis using True ceil p2 by simp
  next
    case False
    with S have ne: "currentBuffer ?a2 \<noteq> []" by simp
    show ?thesis
    proof (cases "dryRun w")
      case True
      then have d2: "dryRun ?w2" by simp
      have "0 \<le> int (length (concat cs))" "int (length (concat cs)) \<le> maxInt"
        using small S by (simp_all add: maxOutputSize_def maxInt_def)
      then obtain h where h: "humanizeBytes (int (length (bundle_bytes Plain (currentBuffer ?a2)))) = Some h"
        using humanizeBytes_Some [of "int (length (concat cs))"] by auto
      from uploadBuffer_dry [OF m2 ne d2 h] rn w1
      have "run Plain sched stop a w =
        (OK, ?a2\<lparr>currentBuffer := [], currentSize := 0, fileCounter := 1\<rparr>,
         ?w2\<lparr>logged := logged ?w2 @
            [''Dry run: would upload '' @ h @ '' to '' @ destBucket ?a2 @ ''/'' @ destPrefix ?a2 @
             ''aggregated_'' @ fmt_03d (wrap64 (fileCounter ?a2 + 1)) @ ''.gz'']\<rparr>)"
        by simp
      with True False ceil show ?thesis by (simp add: puts_def)
    next
      case live: False
      then have l2: "\<not> dryRun ?w2" by simp
      let ?key = "bundle_key a"
      let ?w3 = "snd (PutObject (destBucket a) ?key (concat cs) ?w2)"
      have p3: "puts ?w3 = puts w @ [PutCall (destBucket a) ?key (concat cs)]"
        by (simp add: PutObject_def Let_def puts_def)
      from uploadBuffer_live [OF m2 ne l2] rn w1
      have "run Plain sched stop a w =
         (if ?key \<in> set (put_fails w)
          then (Err UploadError, ?a2\<lparr>fileCounter := 1\<rparr>, ?w3)
          else (OK, ?a2\<lparr>currentBuffer := [], currentSize := 0, fileCounter := 1\<rparr>, ?w3))"
        by (simp add: Let_def bundle_key_def)
      with live False ceil p3 show ?thesis by (cases "?key \<in> set (put_fails w)") simp_all
    qed
  qed
qed

theorem bundle_count_witness:
  "\<not> mu (ex_agg ''web'') \<and> currentBuffer (ex_agg ''web'') = [] \<and>
   currentSize (ex_agg ''web'') = 0 \<and> fileCounter (ex_agg ''web'') = 0 \<and>
   sourcePrefix (ex_agg ''web'') \<notin> set (list_fails ex_world) \<and>
   get_fails ex_world = [] \<and> read_fails ex_world = [] \<and> \<not> dryRun ex_world \<and>
   total_size Plain ex_world (sourceBucket (ex_agg ''web''))
     (listed ex_world (sourceBucket (ex_agg ''web'')) (sourcePrefix (ex_agg ''web''))) = 5 \<and>
   (\<exists>r a' w'. run Plain rev (\<lambda>n. False) (ex_agg ''web'') ex_world = (r, a', w') \<and>
       (r = OK \<or> r = Err UploadError) \<and> fileCounter a' = 1 \<and>
       int (length (puts w')) = int (length (puts ex_world)) + fileCounter a') \<and>
   run Plain rev (\<lambda>n. False) (ex_agg ''web'') ex_world =
     (OK, (ex_agg ''web'')\<lparr>fileCounter := 1\<rparr>,
      ex_world\<lparr>objects := objects ex_world @
                   [((''logs'', ''web/2024-01-01/aggregated_001.gz''), [4, 5, 1, 2, 3])],
                calls := [ListCall ''logs'' ''web/2024-01-01/'' False,
                          GetCall ''logs'' ''web/2024-01-01/b.log'',
                          GetCall ''logs'' ''web/2024-01-01/a.log'',
                          PutCall ''logs'' ''web/2024-01-01/aggregated_001.gz'' [4, 5, 1, 2, 3]]\<rparr>) \<and>
   listed ex_world (sourceBucket (ex_agg ''none'')) (sourcePrefix (ex_agg ''none'')) = [] \<and>
   (\<exists>r a' w'. run Plain rev (\<lambda>n. False) (ex_agg ''none'') ex_world = (r, a', w') \<and>
       (r = OK \<or> r = Err UploadError) \<and> fileCounter a' = 0) \<and>
   run Plain rev (\<lambda>n. False) (ex_agg ''none'') ex_world =
     (OK, ex_agg ''none'', ex_world\<lparr>calls := [ListCall ''logs'' ''none/2024-01-01/'' False]\<rparr>)"
proof -
  let ?A = "ex_agg ''web''"
  let ?a' = "(ex_agg ''web'')\<lparr>fileCounter := 1\<rparr>"
  let ?w' = "ex_world\<lparr>objects := objects ex_world @
                   [((''logs'', ''web/2024-01-01/aggregated_001.gz''), [4, 5, 1, 2, 3])],
                calls := [ListCall ''logs'' ''web/2024-01-01/'' False,
                          GetCall ''logs'' ''web/2024-01-01/b.log'',
                          GetCall ''logs'' ''web/2024-01-01/a.log'',
                          PutCall ''logs'' ''web/2024-01-01/aggregated_001.gz'' [4, 5, 1, 2, 3]]\<rparr>"
  let ?L = "listed ex_world (sourceBucket ?A) (sourcePrefix ?A)"
  let ?B = "ex_agg ''none''"
  let ?N = "listed ex_world (sourceBucket ?B) (sourcePrefix ?B)"
  let ?wn = "ex_world\<lparr>calls := [ListCall ''logs'' ''none/2024-01-01/'' False]\<rparr>"
  have f: "\<not> mu ?A" "currentBuffer ?A = []" "currentSize ?A = 0" "fileCounter ?A = 0"
    by code_simp+
  have p: "mset (rev ?L) = mset ?L" by simp
  have li: "sourcePrefix ?A \<notin> set (list_fails ex_world)" by code_simp
  have gf: "get_fails ex_world = []" and rf: "read_fails ex_world = []" by code_simp+
  have fe: "\<forall>k \<in> set ?L. k \<notin> set (get_fails ex_world) \<and> k \<notin> set (read_fails ex_world)"
    by (simp add: gf rf)
  have s: "total_size Plain ex_world (sourceBucket ?A) ?L = 5" by code_simp
  have sm: "int (total_size Plain ex_world (sourceBucket ?A) ?L) < maxOutputSize"
    by (simp add: s maxOutputSize_def)
  have l: "\<not> dryRun ex_world" by code_simp
  have r: "run Plain rev (\<lambda>n. False) ?A ex_world = (OK, ?a', ?w')" by code_simp
  from bundle_count [where sched = rev and stop = "\<lambda>n. False", OF f p li fe sm]
  obtain r1 a1 w1 where "run Plain rev (\<lambda>n. False) ?A ex_world = (r1, a1, w1)"
    "r1 = OK \<or> r1 = Err UploadError"
    "fileCounter a1 = (if total_size Plain ex_world (sourceBucket ?A) ?L = 0 then 0 else 1)"
    "if dryRun ex_world then r1 = OK \<and> puts w1 = puts ex_world
     else (r1 = OK) = (total_size Plain ex_world (sourceBucket ?A) ?L = 0 \<or>
                       bundle_key ?A \<notin> set (put_fails ex_world)) \<and>
          int (length (puts w1)) = int (length (puts ex_world)) + fileCounter a1"
    by blast
  with s l have c: "\<exists>r a' w'. run Plain rev (\<lambda>n. False) ?A ex_world = (r, a', w') \<and>
       (r = OK \<or> r = Err UploadError) \<and> fileCounter a' = 1 \<and>
       int (length (puts w')) = int (length (puts ex_world)) + fileCounter a'"
    by auto
  have fn: "\<not> mu ?B" "currentBuffer ?B = []" "currentSize ?B = 0" "fileCounter ?B = 0"
    by code_simp+
  have pn: "mset (rev ?N) = mset ?N" by simp
  have ln: "sourcePrefix ?B \<notin> set (list_fails ex_world)" by code_simp
  have kn: "?N = []" by code_simp
  have fen: "\<forall>k \<in> set ?N. k \<notin> set (get_fails ex_world) \<and> k \<notin> set (read_fails ex_world)"
    by (simp add: gf rf)
  have sn: "total_size Plain ex_world (sourceBucket ?B) ?N = 0" by code_simp
  have smn: "int (total_size Plain ex_world (sourceBucket ?B) ?N) < maxOutputSize"
    by (simp add: sn maxOutputSize_def)
  have rn: "run Plain rev (\<lambda>n. False) ?B ex_world = (OK, ?B, ?wn)" by code_simp
  from bundle_count [where sched = rev and stop = "\<lambda>n. False", OF fn pn ln fen smn]
  obtain r2 a2 w2 where "run Plain rev (\<lambda>n. False) ?B ex_world = (r2, a2, w2)"
    "r2 = OK \<or> r2 = Err UploadError"
    "fileCounter a2 = (if total_size Plain ex_world (sourceBucket ?B) ?N = 0 then 0 else 1)"
    by blast
  with sn have cn: "\<exists>r a' w'. run Plain rev (\<lambda>n. False) ?B ex_world = (r, a', w') \<and>
       (r = OK \<or> r = Err UploadError) \<and> fileCounter a' = 0"
    by auto
  from f li gf rf l s c r kn cn rn show ?thesis by blast
qed

text \<open>
  The partition \<open>big\<close>: two objects of 250 MB each. The first is appended; for the second
  the size test of \<^verbatim>\<open>writeContent\<close> succeeds and the worker blocks in the \<^verbatim>\<open>Lock\<close> of
  \<^verbatim>\<open>uploadBuffer\<close>, so \<^verbatim>\<open>wg.Wait()\<close> never returns.
\<close>

lemma big_listed:
  "listed big_world ''logs'' ''big/2024-01-01/'' = [''big/2024-01-01/a.log'', ''big/2024-01-01/b.log'']"
proof -
  have "sort [''big/2024-01-01/a.log'', ''big/2024-01-01/b.log''] =
        [''big/2024-01-01/a.log'', ''big/2024-01-01/b.log'']"
    by code_simp
  moreover have "map (\<lambda>ob. snd (fst ob))
       (filter (\<lambda>ob. fst (fst ob) = ''logs'' \<and> HasPrefix (snd (fst ob)) ''big/2024-01-01/'')
          (objects big_world)) = [''big/2024-01-01/a.log'', ''big/2024-01-01/b.log'']"
    by (simp add: big_world_def HasPrefix_def)
  ultimately show ?thesis by (simp only: listed_def)
qed

lemma big_total:
  "total_size Plain big_world ''logs'' (listed big_world ''logs'' ''big/2024-01-01/'') = 524288000"
proof -
  have "content_of Plain big_world ''logs'' ''big/2024-01-01/a.log'' = Some (replicate 262144000 0)"
     "content_of Plain big_world ''logs'' ''big/2024-01-01/b.log'' = Some (replicate 262144000 0)"
    by (simp_all add: content_of_def big_world_def)
  then show ?thesis by (simp add: big_listed total_size_def)
qed

lemma big_run:
  "run Plain id stop (ex_agg ''big'') big_world =
     (Deadlock,
      (ex_agg ''big'')\<lparr>currentBuffer := replicate 262144000 0, currentSize := 262144000, mu := True\<rparr>,
      big_world\<lparr>calls := [ListCall ''logs'' ''big/2024-01-01/'' False,
                           GetCall ''logs'' ''big/2024-01-01/a.log'',
                           GetCall ''logs'' ''big/2024-01-01/b.log'']\<rparr>)"
proof -
  have a: "sourceBucket (ex_agg ''big'') = ''logs''" "sourcePrefix (ex_agg ''big'') = ''big/2024-01-01/''"
    "\<not> mu (ex_agg ''big'')" "currentSize (ex_agg ''big'') = 0" "currentBuffer (ex_agg ''big'') = []"
    by (simp_all add: ex_agg_def)
  have l: "ListObjectsV2 ''logs'' ''big/2024-01-01/'' big_world =
      (Some [''big/2024-01-01/a.log'', ''big/2024-01-01/b.log''],
       big_world\<lparr>calls := [ListCall ''logs'' ''big/2024-01-01/'' False]\<rparr>)"
    by (simp add: ListObjectsV2_listed big_listed) (simp add: big_world_def)
  let ?w1 = "big_world\<lparr>calls := [ListCall ''logs'' ''big/2024-01-01/'' False]\<rparr>"
  let ?w2 = "big_world\<lparr>calls := [ListCall ''logs'' ''big/2024-01-01/'' False,
                           GetCall ''logs'' ''big/2024-01-01/a.log'']\<rparr>"
  let ?w3 = "big_world\<lparr>calls := [ListCall ''logs'' ''big/2024-01-01/'' False,
                           GetCall ''logs'' ''big/2024-01-01/a.log'',
                           GetCall ''logs'' ''big/2024-01-01/b.log'']\<rparr>"
  let ?a1 = "(ex_agg ''big'')\<lparr>currentBuffer := replicate 262144000 0, currentSize := 262144000\<rparr>"
  have g1: "GetObject ''logs'' ''big/2024-01-01/a.log'' ?w1 = (Inr (replicate 262144000 0), ?w2)"
    by (simp add: GetObject_def big_world_def Let_def)
  have g2: "GetObject ''logs'' ''big/2024-01-01/b.log'' ?w2 = (Inr (replicate 262144000 0), ?w3)"
    by (simp add: GetObject_def big_world_def Let_def)
  have wc1: "writeContent Plain (ex_agg ''big'') (replicate 262144000 0) ?w2 = (OK, ?a1, ?w2)"
    using a by (simp add: writeContent_free Let_def maxOutputSize_def maxInt_def wrap64_def)
  have m1: "\<not> mu ?a1" using a by simp
  have wc2: "writeContent Plain ?a1 (replicate 262144000 0) ?w3 = (Deadlock, ?a1\<lparr>mu := True\<rparr>, ?w3)"
    using m1 by (simp add: writeContent_free Let_def maxOutputSize_def wrap64_def)
  have p1: "processObject Plain (ex_agg ''big'') ''big/2024-01-01/a.log'' ?w1 = (OK, ?a1, ?w2)"
    using a g1 wc1 by (simp add: processObject_def)
  have sb: "sourceBucket ?a1 = ''logs''" using a by simp
  have p2: "processObject Plain ?a1 ''big/2024-01-01/b.log'' ?w2 = (Deadlock, ?a1\<lparr>mu := True\<rparr>, ?w3)"
    using sb g2 wc2 by (simp add: processObject_def)
  have sk: "send_keys Plain stop (ex_agg ''big'') ?w1 [] workerCount False 0
        [''big/2024-01-01/a.log'', ''big/2024-01-01/b.log'']
      = (AllSent [] True, ?a1\<lparr>mu := True\<rparr>, ?w3)"
    using p1 p2 by (simp add: workerCount_def)
  show ?thesis
    using a l sk by (simp add: run_def)
qed

theorem bundle_count_counterexample:
  "length (listed ex_world (sourceBucket (ex_agg ''cron'')) (sourcePrefix (ex_agg ''cron''))) = 1 \<and>
   run Plain id (\<lambda>n. False) (ex_agg ''cron'') ex_world =
     (OK, ex_agg ''cron'',
      ex_world\<lparr>calls := [ListCall ''logs'' ''cron/2024-01-01/'' False,
                          GetCall ''logs'' ''cron/2024-01-01/e.log'']\<rparr>) \<and>
   \<not> 1 \<le> length (puts (ex_world\<lparr>calls := [ListCall ''logs'' ''cron/2024-01-01/'' False,
                          GetCall ''logs'' ''cron/2024-01-01/e.log'']\<rparr>)) \<and>
   \<not> 1 \<le> fileCounter (ex_agg ''cron'') \<and>
   length (listed big_world ''logs'' ''big/2024-01-01/'') = 2 \<and>
   (int (total_size Plain big_world ''logs'' (listed big_world ''logs'' ''big/2024-01-01/''))
      + maxOutputSize - 1) div maxOutputSize = 1 \<and>
   fst (run Plain id (\<lambda>n. False) (ex_agg ''big'') big_world) = Deadlock \<and>
   \<not> 1 \<le> fileCounter (fst (snd (run Plain id (\<lambda>n. False) (ex_agg ''big'') big_world))) \<and>
   \<not> 1 \<le> length (puts (snd (snd (run Plain id (\<lambda>n. False) (ex_agg ''big'') big_world))))"
proof -
  have c: "length (listed ex_world (sourceBucket (ex_agg ''cron'')) (sourcePrefix (ex_agg ''cron''))) = 1 \<and>
   run Plain id (\<lambda>n. False) (ex_agg ''cron'') ex_world =
     (OK, ex_agg ''cron'',
      ex_world\<lparr>calls := [ListCall ''logs'' ''cron/2024-01-01/'' False,
                          GetCall ''logs'' ''cron/2024-01-01/e.log'']\<rparr>) \<and>
   \<not> 1 \<le> length (puts (ex_world\<lparr>calls := [ListCall ''logs'' ''cron/2024-01-01/'' False,
                          GetCall ''logs'' ''cron/2024-01-01/e.log'']\<rparr>)) \<and>
   \<not> 1 \<le> fileCounter (ex_agg ''cron'')"
    by code_simp
  have n: "length (listed big_world ''logs'' ''big/2024-01-01/'') = 2"
    by (simp add: big_listed)
  have t: "(int (total_size Plain big_world ''logs'' (listed big_world ''logs'' ''big/2024-01-01/''))
      + maxOutputSize - 1) div maxOutputSize = 1"
    by (simp add: big_total maxOutputSize_def)
  have f: "fileCounter (ex_agg ''big'') = 0" by (simp add: ex_agg_def)
  have p: "calls big_world = []" by (simp add: big_world_def)
  have b: "fst (run Plain id (\<lambda>n. False) (ex_agg ''big'') big_world) = Deadlock"
    "\<not> 1 \<le> fileCounter (fst (snd (run Plain id (\<lambda>n. False) (ex_agg ''big'') big_world)))"
    "\<not> 1 \<le> length (puts (snd (snd (run Plain id (\<lambda>n. False) (ex_agg ''big'') big_world))))"
    by (simp_all add: big_run f puts_def)
  from c n t b show ?thesis by blast
qed

subsection \<open>C3: dry run and live mode\<close>

lemma uploadBuffer_dry_frame:
  assumes "uploadBuffer v a w = (r, a', w')" and "dryRun w"
  shows "calls w' = calls w \<and> dryRun w'"
  using assms
  by (cases "mu a")
     (auto simp: uploadBuffer_held uploadBuffer_def Lock_def uploadBuffer_locked_def
        deferred_Unlock_def Let_def split: if_splits option.splits)

lemma run_dry_frame:
  assumes "run v sched stop a w = (r, a', w')" and "dryRun w"
  shows "puts w' = puts w \<and> dryRun w'"
proof -
  from run_shape [OF assms(1)] obtain a2 w2 m where
    w2: "w2 = w\<lparr>calls := calls w @ ListCall (sourceBucket a) (sourcePrefix a) False #
            map (GetCall (sourceBucket a)) (take m (sched (listed w (sourceBucket a) (sourcePrefix a))))\<rparr>"
    and alt: "(a' = a2 \<and> w' = w2) \<or> (\<exists>r3. uploadBuffer v a2 w2 = (r3, a', w'))"
    by blast
  have p2: "puts w2 = puts w" "dryRun w2"
    using w2 assms(2) by (simp_all add: puts_def)
  from alt show ?thesis
  proof
    assume "a' = a2 \<and> w' = w2"
    with p2 show ?thesis by simp
  next
    assume "\<exists>r3. uploadBuffer v a2 w2 = (r3, a', w')"
    then obtain r3 where "uploadBuffer v a2 w2 = (r3, a', w')" by blast
    from uploadBuffer_dry_frame [OF this p2(2)] p2 show ?thesis by (simp add: puts_def)
  qed
qed

lemma apps_loop_dry_frame:
  "apps_loop v sched stop date dp0 agg w pfxs = (r, a', w') \<Longrightarrow> dryRun w \<Longrightarrow>
   puts w' = puts w \<and> dryRun w'"
proof (induction pfxs arbitrary: agg w)
  case Nil
  then show ?case by simp
next
  case (Cons p pfxs)
  obtain r1 a1 w1 where rn: "run v sched stop (start_app date dp0 agg p) w = (r1, a1, w1)"
    by (cases "run v sched stop (start_app date dp0 agg p) w") auto
  from run_dry_frame [OF rn Cons.prems(2)] have w1: "puts w1 = puts w" "dryRun w1" by simp_all
  show ?case
  proof (cases "r1 = OK")
    case True
    with Cons.prems(1) rn have "apps_loop v sched stop date dp0 a1 w1 pfxs = (r, a', w')" by simp
    from Cons.IH [OF this w1(2)] w1 show ?thesis by simp
  next
    case False
    with Cons.prems(1) rn w1 show ?thesis by simp
  qed
qed

lemma processLogs_dry:
  assumes "processLogs v sched stop date bucket True w = (r, w')"
  shows "puts w' = puts w"
proof -
  let ?w0 = "w\<lparr>dryRun := True\<rparr>"
  have p0: "puts ?w0 = puts w" by (simp add: puts_def)
  show ?thesis
  proof (cases "date = [] \<or> bucket = []")
    case True
    with assms show ?thesis by (auto simp: processLogs_def split: if_splits)
  next
    case False
    show ?thesis
    proof (cases "parseS3URI (''s3://'' @ bucket @ ''/'')")
      case (Inl e)
      with assms False p0 show ?thesis by (auto simp: processLogs_def Let_def)
    next
      case (Inr bp)
      obtain b p where bp: "bp = (b, p)" by (cases bp) auto
      show ?thesis
      proof (cases "config_fails w")
        case True
        with assms False Inr bp p0 show ?thesis
          by (auto simp: processLogs_def Let_def newAggregator_def)
      next
        case cfg: False
        let ?agg = "\<lparr>sourceBucket = b, sourcePrefix = p, destBucket = b, destPrefix = p,
                currentBuffer = [], currentSize = 0, fileCounter = 0, mu = False\<rparr>"
        show ?thesis
        proof (cases "p \<in> set (list_fails w)")
          case True
          with assms False Inr bp cfg p0 show ?thesis
            by (auto simp: processLogs_def Let_def newAggregator_def ListCommonPrefixes_def puts_def)
        next
          case lf: False
          let ?w1 = "?w0\<lparr>calls := calls ?w0 @ [ListCall b p True]\<rparr>"
          obtain pfxs where l: "ListCommonPrefixes b p ?w0 = (Some pfxs, ?w1)"
            using lf by (simp add: ListCommonPrefixes_def Let_def)
          obtain r1 a1 w1 where al: "apps_loop v sched stop date p ?agg ?w1 pfxs = (r1, a1, w1)"
            by (cases "apps_loop v sched stop date p ?agg ?w1 pfxs") auto
          have "dryRun ?w1" by simp
          from apps_loop_dry_frame [OF al this] have "puts w1 = puts w" by (simp add: puts_def)
          moreover from assms False Inr bp cfg l al have "w' = w1"
            by (simp add: processLogs_def Let_def newAggregator_def)
          ultimately show ?thesis by simp
        qed
      qed
    qed
  qed
qed

text \<open>
  Claim C3. A run with the dry-run flag (\<^verbatim>\<open>processLogs\<close> called with \<open>True\<close>, or
  \<^verbatim>\<open>handleRequest\<close> with an event whose \<^verbatim>\<open>DryRun\<close> is set) makes no \<^verbatim>\<open>PutObject\<close>
  call, however it ends and whatever the scheduler does: also when a worker has reported an
  error and \<^verbatim>\<open>run\<close> reaches its final flush before it reads the error. In dry-run mode a
  flush of a buffer that is not empty makes no call at all and writes one log line, which
  holds the humanized length of the body. In live mode a flush of a buffer that is not
  empty makes exactly one call, the \<^verbatim>\<open>PutObject\<close> of the body under the next key. A
  flush of an empty buffer does nothing. A flush here is a call of \<^verbatim>\<open>uploadBuffer\<close> on a
  free mutex, as the final flush of \<^verbatim>\<open>run\<close> is.
\<close>

theorem dry_run_never_puts:
  "(processLogs v sched stop date bucket True w = (r, w') \<longrightarrow> puts w' = puts w) \<and>
   (handleRequest v sched stop ev w = (r, w') \<and> DryRun ev \<longrightarrow> puts w' = puts w) \<and>
   (\<not> mu ad \<and> currentBuffer ad \<noteq> [] \<and> dryRun wd \<and>
    int (length (bundle_bytes v (currentBuffer ad))) \<le> maxInt \<longrightarrow>
      (\<exists>h. humanizeBytes (int (length (bundle_bytes v (currentBuffer ad)))) = Some h \<and>
           uploadBuffer v ad wd =
             (OK, ad\<lparr>currentBuffer := [], currentSize := 0,
                      fileCounter := wrap64 (fileCounter ad + 1)\<rparr>,
              wd\<lparr>logged := logged wd @
                 [''Dry run: would upload '' @ h @ '' to '' @ destBucket ad @ ''/'' @
                  bundle_key ad]\<rparr>))) \<and>
   (\<not> mu al \<and> currentBuffer al \<noteq> [] \<and> \<not> dryRun wl \<longrightarrow>
      calls (snd (snd (uploadBuffer v al wl))) =
        calls wl @ [PutCall (destBucket al) (bundle_key al) (bundle_bytes v (currentBuffer al))]) \<and>
   (\<not> mu ae \<and> currentBuffer ae = [] \<longrightarrow> uploadBuffer v ae we = (OK, ae, we))"
proof (intro conjI impI)
  assume "processLogs v sched stop date bucket True w = (r, w')"
  then show "puts w' = puts w" by (rule processLogs_dry)
next
  assume "handleRequest v sched stop ev w = (r, w') \<and> DryRun ev"
  then have "processLogs v sched stop (Date ev) (Bucket ev) True w = (r, w')"
    by (clarsimp simp: handleRequest_def)
  then show "puts w' = puts w" by (rule processLogs_dry)
next
  assume h: "\<not> mu ad \<and> currentBuffer ad \<noteq> [] \<and> dryRun wd \<and>
    int (length (bundle_bytes v (currentBuffer ad))) \<le> maxInt"
  then obtain s where s: "humanizeBytes (int (length (bundle_bytes v (currentBuffer ad)))) = Some s"
    using humanizeBytes_Some [of "int (length (bundle_bytes v (currentBuffer ad)))"] by auto
  with h have "uploadBuffer v ad wd =
             (OK, ad\<lparr>currentBuffer := [], currentSize := 0,
                      fileCounter := wrap64 (fileCounter ad + 1)\<rparr>,
              wd\<lparr>logged := logged wd @
                 [''Dry run: would upload '' @ s @ '' to '' @ destBucket ad @ ''/'' @
                  bundle_key ad]\<rparr>)"
    by (simp add: uploadBuffer_dry bundle_key_def)
  with s show "\<exists>h. humanizeBytes (int (length (bundle_bytes v (currentBuffer ad)))) = Some h \<and>
           uploadBuffer v ad wd =
             (OK, ad\<lparr>currentBuffer := [], currentSize := 0,
                      fileCounter := wrap64 (fileCounter ad + 1)\<rparr>,
              wd\<lparr>logged := logged wd @
                 [''Dry run: would upload '' @ h @ '' to '' @ destBucket ad @ ''/'' @
                  bundle_key ad]\<rparr>)"
    by blast
next
  assume "\<not> mu al \<and> currentBuffer al \<noteq> [] \<and> \<not> dryRun wl"
  then show "calls (snd (snd (uploadBuffer v al wl))) =
        calls wl @ [PutCall (destBucket al) (bundle_key al) (bundle_bytes v (currentBuffer al))]"
    by (simp add: uploadBuffer_live Let_def PutObject_def bundle_key_def)
next
  assume "\<not> mu ae \<and> currentBuffer ae = []"
  then show "uploadBuffer v ae we = (OK, ae, we)" by (simp add: uploadBuffer_empty)
qed

theorem dry_run_never_puts_witness:
  "fst (processLogs Plain id (\<lambda>n. False) ''2024-01-01'' ''logs'' True ex_world) = OK \<and>
   logged (snd (processLogs Plain id (\<lambda>n. False) ''2024-01-01'' ''logs'' True ex_world)) =
     [''Dry run: would upload 1 B to logs/api/2024-01-01/aggregated_001.gz'',
      ''Dry run: would upload 5 B to logs/web/2024-01-01/aggregated_001.gz''] \<and>
   puts (snd (processLogs Plain id (\<lambda>n. False) ''2024-01-01'' ''logs'' True ex_world)) = puts ex_world \<and>
   puts ex_world = [] \<and>
   fst (processLogs Plain id (\<lambda>n. False) ''2024-01-01'' ''logs'' True
          (ex_world\<lparr>get_fails := [''web/2024-01-01/b.log'']\<rparr>)) =
     Err (GetObjectError ''web/2024-01-01/b.log'') \<and>
   logged (snd (processLogs Plain id (\<lambda>n. False) ''2024-01-01'' ''logs'' True
          (ex_world\<lparr>get_fails := [''web/2024-01-01/b.log'']\<rparr>))) =
     [''Dry run: would upload 1 B to logs/api/2024-01-01/aggregated_001.gz'',
      ''Dry run: would upload 3 B to logs/web/2024-01-01/aggregated_001.gz''] \<and>
   puts (snd (processLogs Plain id (\<lambda>n. False) ''2024-01-01'' ''logs'' True
          (ex_world\<lparr>get_fails := [''web/2024-01-01/b.log'']\<rparr>))) =
     puts (ex_world\<lparr>get_fails := [''web/2024-01-01/b.log'']\<rparr>) \<and>
   uploadBuffer Plain ((ex_agg ''web'')\<lparr>currentBuffer := [1, 2, 3], currentSize := 3\<rparr>)
       (ex_world\<lparr>dryRun := True\<rparr>) =
     (OK, (ex_agg ''web'')\<lparr>fileCounter := 1\<rparr>,
      ex_world\<lparr>dryRun := True, logged :=
        [''Dry run: would upload 3 B to logs/web/2024-01-01/aggregated_001.gz'']\<rparr>) \<and>
   calls (snd (snd (uploadBuffer Plain
       ((ex_agg ''web'')\<lparr>currentBuffer := [1, 2, 3], currentSize := 3\<rparr>) ex_world))) =
     calls ex_world @
     [PutCall (destBucket ((ex_agg ''web'')\<lparr>currentBuffer := [1, 2, 3], currentSize := 3\<rparr>))
        (bundle_key ((ex_agg ''web'')\<lparr>currentBuffer := [1, 2, 3], currentSize := 3\<rparr>))
        (bundle_bytes Plain
           (currentBuffer ((ex_agg ''web'')\<lparr>currentBuffer := [1, 2, 3], currentSize := 3\<rparr>)))] \<and>
   bundle_key ((ex_agg ''web'')\<lparr>currentBuffer := [1, 2, 3], currentSize := 3\<rparr>) =
     ''web/2024-01-01/aggregated_001.gz'' \<and>
   uploadBuffer Plain (ex_agg ''web'') ex_world = (OK, ex_agg ''web'', ex_world) \<and>
   puts (snd (handleRequest Plain id (\<lambda>n. False)
       \<lparr>Date = ''2024-01-01'', Bucket = ''logs'', DryRun = True\<rparr> ex_world)) = puts ex_world \<and>
   (\<exists>h. humanizeBytes (int (length (bundle_bytes Plain (currentBuffer
          ((ex_agg ''web'')\<lparr>currentBuffer := [1, 2, 3], currentSize := 3\<rparr>))))) = Some h)"
proof -
  let ?P = "processLogs Plain id (\<lambda>n. False) ''2024-01-01'' ''logs'' True ex_world"
  let ?wg = "ex_world\<lparr>get_fails := [''web/2024-01-01/b.log'']\<rparr>"
  let ?Q = "processLogs Plain id (\<lambda>n. False) ''2024-01-01'' ''logs'' True ?wg"
  let ?a = "(ex_agg ''web'')\<lparr>currentBuffer := [1, 2, 3], currentSize := 3\<rparr>"
  let ?wd = "ex_world\<lparr>dryRun := True\<rparr>"
  let ?ev = "\<lparr>Date = ''2024-01-01'', Bucket = ''logs'', DryRun = True\<rparr>"
  let ?H = "handleRequest Plain id (\<lambda>n. False) ?ev ex_world"
  note inst = dry_run_never_puts [of Plain id "\<lambda>n. False" "''2024-01-01''" "''logs''" ex_world
      "fst ?P" "snd ?P" ?ev ?a ?wd ?a ex_world "ex_agg ''web''" ex_world]
  note inst2 = dry_run_never_puts [of Plain id "\<lambda>n. False" "''2024-01-01''" "''logs''" ex_world
      "fst ?H" "snd ?H" ?ev ?a ?wd ?a ex_world "ex_agg ''web''" ex_world]
  note inst3 = dry_run_never_puts [of Plain id "\<lambda>n. False" "''2024-01-01''" "''logs''" ?wg
      "fst ?Q" "snd ?Q" ?ev ?a ?wd ?a ex_world "ex_agg ''web''" ex_world]
  have h2: "?H = (fst ?H, snd ?H) \<and> DryRun ?ev" by simp
  have hd: "\<not> mu ?a \<and> currentBuffer ?a \<noteq> [] \<and> dryRun ?wd \<and>
    int (length (bundle_bytes Plain (currentBuffer ?a))) \<le> maxInt"
    by code_simp
  have p1: "?P = (fst ?P, snd ?P)" by simp
  have q1: "?Q = (fst ?Q, snd ?Q)" by simp
  have ok: "fst ?P = OK" by code_simp
  have lg: "logged (snd ?P) =
     [''Dry run: would upload 1 B to logs/api/2024-01-01/aggregated_001.gz'',
      ''Dry run: would upload 5 B to logs/web/2024-01-01/aggregated_001.gz'']"
    by code_simp
  have qe: "fst ?Q = Err (GetObjectError ''web/2024-01-01/b.log'')" by code_simp
  have ql: "logged (snd ?Q) =
     [''Dry run: would upload 1 B to logs/api/2024-01-01/aggregated_001.gz'',
      ''Dry run: would upload 3 B to logs/web/2024-01-01/aggregated_001.gz'']"
    by code_simp
  have p0: "puts ex_world = []" by code_simp
  have hl: "\<not> mu ?a \<and> currentBuffer ?a \<noteq> [] \<and> \<not> dryRun ex_world" by code_simp
  have he: "\<not> mu (ex_agg ''web'') \<and> currentBuffer (ex_agg ''web'') = []" by code_simp
  have dr: "uploadBuffer Plain ?a ?wd =
     (OK, (ex_agg ''web'')\<lparr>fileCounter := 1\<rparr>,
      ex_world\<lparr>dryRun := True, logged :=
        [''Dry run: would upload 3 B to logs/web/2024-01-01/aggregated_001.gz'']\<rparr>)"
    by code_simp
  have bk: "bundle_key ?a = ''web/2024-01-01/aggregated_001.gz''" by code_simp
  from inst p1 have c1: "puts (snd ?P) = puts ex_world" by blast
  from inst3 q1 have c6: "puts (snd ?Q) = puts ?wg" by blast
  from inst hl have c4: "calls (snd (snd (uploadBuffer Plain ?a ex_world))) =
     calls ex_world @ [PutCall (destBucket ?a) (bundle_key ?a) (bundle_bytes Plain (currentBuffer ?a))]"
    by blast
  from inst he have c5: "uploadBuffer Plain (ex_agg ''web'') ex_world = (OK, ex_agg ''web'', ex_world)"
    by blast
  from inst2 h2 have c2: "puts (snd ?H) = puts ex_world" by blast
  from inst hd have c3: "\<exists>h. humanizeBytes (int (length (bundle_bytes Plain (currentBuffer ?a)))) = Some h"
    by blast
  from ok lg c1 p0 qe ql c6 dr c4 bk c5 c2 c3 show ?thesis by blast
qed

subsection \<open>C4: the state after a flush\<close>

lemma wrap64_succ: "0 \<le> n \<Longrightarrow> n < maxInt \<Longrightarrow> wrap64 (n + 1) = n + 1"
  by (intro wrap64_id) (auto simp: maxInt_def)

text \<open>
  Claim C4, as amended. After every flush of a buffer that is not empty (a call of
  \<^verbatim>\<open>uploadBuffer\<close> on a free mutex) the counter has been incremented exactly once,
  whether the upload succeeded or failed, and nothing rolls it back. When the flush returns
  \<^verbatim>\<open>nil\<close> (a dry run, or an upload that succeeded) the accumulator is empty and the size
  counter is zero. When the upload fails, \<^verbatim>\<open>uploadBuffer\<close> returns the error before the
  two reset statements: the size counter keeps its value, and the accumulator keeps its
  contents in \<^verbatim>\<open>part_003\<close> and is left drained by \<^verbatim>\<open>WriteTo\<close> in \<^verbatim>\<open>part_004\<close>.
  In live mode the flush succeeds exactly when the service accepts the key.

  The claim as stated has the accumulator empty and the size counter zero after a failed
  upload too. The counterexample is a failed upload in \<^verbatim>\<open>part_003\<close>: the three buffered
  bytes and the size 3 are still there.
\<close>

theorem flush_outcome:
  assumes "\<not> mu a" and "currentBuffer a \<noteq> []"
    and "0 \<le> fileCounter a" and "fileCounter a < maxInt"
    and "uploadBuffer v a w = (r, a', w')"
  shows "fileCounter a' = fileCounter a + 1 \<and>
         (r = OK \<or> r = Err UploadError \<or> r = Panic) \<and>
         (r = OK \<longrightarrow> currentBuffer a' = [] \<and> currentSize a' = 0) \<and>
         (r = Err UploadError \<longrightarrow>
            \<not> dryRun w \<and> currentSize a' = currentSize a \<and>
            currentBuffer a' = after_body v (currentBuffer a)) \<and>
         (\<not> dryRun w \<longrightarrow> (r = OK) = (bundle_key a \<notin> set (put_fails w))) \<and>
         (dryRun w \<and> int (length (bundle_bytes v (currentBuffer a))) \<le> maxInt \<longrightarrow> r = OK)"
proof (cases "dryRun w")
  case True
  show ?thesis
  proof (cases "humanizeBytes (int (length (bundle_bytes v (currentBuffer a))))")
    case None
    have "\<not> int (length (bundle_bytes v (currentBuffer a))) \<le> maxInt"
      using humanizeBytes_Some [of "int (length (bundle_bytes v (currentBuffer a)))"] None by auto
    with assms True None show ?thesis
      by (auto simp: uploadBuffer_def Lock_def uploadBuffer_locked_def deferred_Unlock_def
          Unlock_def Let_def wrap64_succ)
  next
    case (Some h)
    with assms True show ?thesis
      by (auto simp: uploadBuffer_dry wrap64_succ)
  qed
next
  case False
  with assms show ?thesis
    by (auto simp: uploadBuffer_live Let_def wrap64_succ bundle_key_def split: if_splits)
qed

theorem flush_outcome_counterexample:
  "fst (uploadBuffer Plain ((ex_agg ''web'')\<lparr>currentBuffer := [1, 2, 3], currentSize := 3\<rparr>)
         (ex_world\<lparr>put_fails := [''web/2024-01-01/aggregated_001.gz'']\<rparr>)) = Err UploadError \<and>
   currentBuffer (fst (snd (uploadBuffer Plain
         ((ex_agg ''web'')\<lparr>currentBuffer := [1, 2, 3], currentSize := 3\<rparr>)
         (ex_world\<lparr>put_fails := [''web/2024-01-01/aggregated_001.gz'']\<rparr>)))) = [1, 2, 3] \<and>
   currentSize (fst (snd (uploadBuffer Plain
         ((ex_agg ''web'')\<lparr>currentBuffer := [1, 2, 3], currentSize := 3\<rparr>)
         (ex_world\<lparr>put_fails := [''web/2024-01-01/aggregated_001.gz'']\<rparr>)))) = 3 \<and>
   fileCounter (fst (snd (uploadBuffer Plain
         ((ex_agg ''web'')\<lparr>currentBuffer := [1, 2, 3], currentSize := 3\<rparr>)
         (ex_world\<lparr>put_fails := [''web/2024-01-01/aggregated_001.gz'']\<rparr>)))) = 1"
  by code_simp

theorem flush_outcome_witness:
  "\<not> mu ((ex_agg ''web'')\<lparr>currentBuffer := [1, 2, 3], currentSize := 3\<rparr>) \<and>
   currentBuffer ((ex_agg ''web'')\<lparr>currentBuffer := [1, 2, 3], currentSize := 3\<rparr>) \<noteq> [] \<and>
   uploadBuffer Plain ((ex_agg ''web'')\<lparr>currentBuffer := [1, 2, 3], currentSize := 3\<rparr>) ex_world =
     (OK, (ex_agg ''web'')\<lparr>fileCounter := 1\<rparr>,
      ex_world\<lparr>objects := objects ex_world @
                   [((''logs'', ''web/2024-01-01/aggregated_001.gz''), [1, 2, 3])],
                calls := [PutCall ''logs'' ''web/2024-01-01/aggregated_001.gz'' [1, 2, 3]]\<rparr>) \<and>
   fileCounter ((ex_agg ''web'')\<lparr>fileCounter := 1\<rparr>) =
     fileCounter ((ex_agg ''web'')\<lparr>currentBuffer := [1, 2, 3], currentSize := 3\<rparr>) + 1 \<and>
   currentBuffer ((ex_agg ''web'')\<lparr>fileCounter := 1\<rparr>) = [] \<and>
   currentSize ((ex_agg ''web'')\<lparr>fileCounter := 1\<rparr>) = 0 \<and>
   uploadBuffer (Gzip ex_gz ex_gunzip)
       ((ex_agg ''web'')\<lparr>currentBuffer := [1, 2, 3], currentSize := 3\<rparr>)
       (ex_world\<lparr>put_fails := [''web/2024-01-01/aggregated_001.gz'']\<rparr>) =
     (Err UploadError, (ex_agg ''web'')\<lparr>currentSize := 3, fileCounter := 1\<rparr>,
      ex_world\<lparr>put_fails := [''web/2024-01-01/aggregated_001.gz''],
                calls := [PutCall ''logs'' ''web/2024-01-01/aggregated_001.gz'' (ex_gz [1, 2, 3])]\<rparr>) \<and>
   currentSize ((ex_agg ''web'')\<lparr>currentSize := 3, fileCounter := 1\<rparr>) =
     currentSize ((ex_agg ''web'')\<lparr>currentBuffer := [1, 2, 3], currentSize := 3\<rparr>) \<and>
   currentBuffer ((ex_agg ''web'')\<lparr>currentSize := 3, fileCounter := 1\<rparr>) =
     after_body (Gzip ex_gz ex_gunzip)
       (currentBuffer ((ex_agg ''web'')\<lparr>currentBuffer := [1, 2, 3], currentSize := 3\<rparr>)) \<and>
   fst (uploadBuffer Plain ((ex_agg ''web'')\<lparr>currentBuffer := [1, 2, 3], currentSize := 3\<rparr>)
          (ex_world\<lparr>dryRun := True\<rparr>)) = OK"
proof -
  let ?a = "(ex_agg ''web'')\<lparr>currentBuffer := [1, 2, 3], currentSize := 3\<rparr>"
  let ?a' = "(ex_agg ''web'')\<lparr>fileCounter := 1\<rparr>"
  let ?w' = "ex_world\<lparr>objects := objects ex_world @
                   [((''logs'', ''web/2024-01-01/aggregated_001.gz''), [1, 2, 3])],
                calls := [PutCall ''logs'' ''web/2024-01-01/aggregated_001.gz'' [1, 2, 3]]\<rparr>"
  let ?wf = "ex_world\<lparr>put_fails := [''web/2024-01-01/aggregated_001.gz'']\<rparr>"
  let ?af = "(ex_agg ''web'')\<lparr>currentSize := 3, fileCounter := 1\<rparr>"
  let ?wf' = "ex_world\<lparr>put_fails := [''web/2024-01-01/aggregated_001.gz''],
                calls := [PutCall ''logs'' ''web/2024-01-01/aggregated_001.gz'' (ex_gz [1, 2, 3])]\<rparr>"
  let ?wd = "ex_world\<lparr>dryRun := True\<rparr>"
  let ?D = "uploadBuffer Plain ?a ?wd"
  have m: "\<not> mu ?a" and b: "currentBuffer ?a \<noteq> []" and c0: "0 \<le> fileCounter ?a"
    by code_simp+
  have c1: "fileCounter ?a < maxInt" by code_simp
  have u: "uploadBuffer Plain ?a ex_world = (OK, ?a', ?w')" by code_simp
  have uf: "uploadBuffer (Gzip ex_gz ex_gunzip) ?a ?wf = (Err UploadError, ?af, ?wf')"
    by code_simp
  have ud: "?D = (fst ?D, fst (snd ?D), snd (snd ?D))" by simp
  have hd: "dryRun ?wd \<and> int (length (bundle_bytes Plain (currentBuffer ?a))) \<le> maxInt"
    by code_simp
  from flush_outcome [OF m b c0 c1 u]
  have ok: "fileCounter ?a' = fileCounter ?a + 1" "currentBuffer ?a' = [] \<and> currentSize ?a' = 0"
    by blast+
  from flush_outcome [OF m b c0 c1 uf]
  have bad: "currentSize ?af = currentSize ?a"
    "currentBuffer ?af = after_body (Gzip ex_gz ex_gunzip) (currentBuffer ?a)"
    by blast+
  from flush_outcome [OF m b c0 c1 ud] hd have dry: "fst ?D = OK" by blast
  from m b u ok uf bad dry show ?thesis by blast
qed

subsection \<open>C7: the size counter and the accumulator\<close>

lemma writeContent_size:
  assumes "writeContent v a content w = (r, a', w')"
    and "currentSize a = int (length (currentBuffer a))"
  shows "currentSize a' = int (length (currentBuffer a'))"
proof (cases "mu a")
  case True
  with assms show ?thesis by (simp add: writeContent_held)
next
  case False
  let ?c = "item_bytes v content"
  show ?thesis
  proof (cases "int (length (currentBuffer a)) + int (length ?c) \<le> maxInt")
    case True
    then have "wrap64 (currentSize a + int (length ?c)) = currentSize a + int (length ?c)"
      using assms(2) by (intro wrap64_id) (auto simp: maxInt_def)
    with assms False show ?thesis
      by (auto simp: writeContent_free Let_def split: if_splits)
  next
    case big: False
    with assms False show ?thesis
      by (auto simp: writeContent_free Let_def split: if_splits)
  qed
qed

lemma uploadBuffer_OK_size:
  assumes "uploadBuffer v a w = (OK, a', w')"
    and "currentSize a = int (length (currentBuffer a))"
  shows "currentSize a' = int (length (currentBuffer a')) \<and> currentBuffer a' = []"
  using uploadBuffer_OK [OF assms(1)] assms(2) by (auto split: if_splits)

lemma uploadBuffer_Plain_size:
  assumes "uploadBuffer Plain a w = (r, a', w')"
    and "currentSize a = int (length (currentBuffer a))"
  shows "currentSize a' = int (length (currentBuffer a'))"
  using assms
  by (cases "mu a")
     (auto simp: uploadBuffer_held uploadBuffer_def Lock_def uploadBuffer_locked_def
        deferred_Unlock_def Unlock_def Let_def PutObject_def
        split: if_splits option.splits)

lemma reachable_size: "reachable v a \<Longrightarrow> currentSize a = int (length (currentBuffer a))"
proof (induction rule: reachable.induct)
  case (init sb sp db dp w a)
  then show ?case by (auto simp: newAggregator_def split: if_splits)
next
  case (app a date dp0 appPrefix)
  then show ?case by (simp add: start_app_def Let_def)
next
  case (append a content w r a' w')
  then show ?case using writeContent_size by blast
next
  case (flush a w a' w')
  then show ?case using uploadBuffer_OK_size by blast
qed

text \<open>
  Claim C7, as amended. In every reachable state of the aggregator (after
  \<^verbatim>\<open>newAggregator\<close>, after the assignments of \<^verbatim>\<open>processLogs\<close>, after every append,
  however it ended, and after every flush that returned \<^verbatim>\<open>nil\<close>) the size counter equals
  the length of the accumulator; after every flush that returns \<^verbatim>\<open>nil\<close> the accumulator
  is empty and the counter is zero; and in \<^verbatim>\<open>part_003\<close> a flush that returns an error
  keeps the counter equal to the length as well.

  The claim as stated covers every completed flush. The counterexample is a run of
  \<^verbatim>\<open>part_004\<close> whose upload fails: \<^verbatim>\<open>uploadBuffer\<close> returns with the accumulator drained
  by \<^verbatim>\<open>WriteTo\<close> (length 0) and the size counter still 7.
\<close>

theorem size_counter_invariant:
  assumes "reachable v a"
  shows "currentSize a = int (length (currentBuffer a)) \<and>
         (uploadBuffer v a w = (OK, a', w') \<longrightarrow> currentBuffer a' = [] \<and> currentSize a' = 0) \<and>
         (uploadBuffer Plain a w = (r, a'', w'') \<longrightarrow> currentSize a'' = int (length (currentBuffer a'')))"
proof -
  have inv: "currentSize a = int (length (currentBuffer a))"
    using assms by (rule reachable_size)
  have "uploadBuffer v a w = (OK, a', w') \<longrightarrow> currentBuffer a' = [] \<and> currentSize a' = 0"
    using uploadBuffer_OK_size [of v a w a' w'] inv by auto
  moreover have "uploadBuffer Plain a w = (r, a'', w'') \<longrightarrow>
      currentSize a'' = int (length (currentBuffer a''))"
    using uploadBuffer_Plain_size [of a w r a'' w''] inv by blast
  ultimately show ?thesis using inv by blast
qed

theorem size_counter_invariant_counterexample:
  "fst (run (Gzip ex_gz ex_gunzip) id (\<lambda>n. False) (ex_agg ''web'')
         (ex_world\<lparr>objects := [((''logs'', ''web/2024-01-01/a.log''), ex_gz [1, 2, 3])],
                    put_fails := [''web/2024-01-01/aggregated_001.gz'']\<rparr>)) = Err UploadError \<and>
   currentBuffer (fst (snd (run (Gzip ex_gz ex_gunzip) id (\<lambda>n. False) (ex_agg ''web'')
         (ex_world\<lparr>objects := [((''logs'', ''web/2024-01-01/a.log''), ex_gz [1, 2, 3])],
                    put_fails := [''web/2024-01-01/aggregated_001.gz'']\<rparr>)))) = [] \<and>
   currentSize (fst (snd (run (Gzip ex_gz ex_gunzip) id (\<lambda>n. False) (ex_agg ''web'')
         (ex_world\<lparr>objects := [((''logs'', ''web/2024-01-01/a.log''), ex_gz [1, 2, 3])],
                    put_fails := [''web/2024-01-01/aggregated_001.gz'']\<rparr>)))) = 7 \<and>
   puts (snd (snd (run (Gzip ex_gz ex_gunzip) id (\<lambda>n. False) (ex_agg ''web'')
         (ex_world\<lparr>objects := [((''logs'', ''web/2024-01-01/a.log''), ex_gz [1, 2, 3])],
                    put_fails := [''web/2024-01-01/aggregated_001.gz'']\<rparr>)))) =
     [PutCall ''logs'' ''web/2024-01-01/aggregated_001.gz'' (ex_gz (ex_gz [1, 2, 3]))]"
  by code_simp

theorem size_counter_invariant_witness:
  "reachable Plain (ex_agg ''web'') \<and>
   reachable Plain ((ex_agg ''web'')\<lparr>currentBuffer := [1, 2, 3], currentSize := 3\<rparr>) \<and>
   currentSize ((ex_agg ''web'')\<lparr>currentBuffer := [1, 2, 3], currentSize := 3\<rparr>) =
     int (length (currentBuffer ((ex_agg ''web'')\<lparr>currentBuffer := [1, 2, 3], currentSize := 3\<rparr>))) \<and>
   uploadBuffer Plain ((ex_agg ''web'')\<lparr>currentBuffer := [1, 2, 3], currentSize := 3\<rparr>) ex_world =
     (OK, (ex_agg ''web'')\<lparr>fileCounter := 1\<rparr>,
      ex_world\<lparr>objects := objects ex_world @
                   [((''logs'', ''web/2024-01-01/aggregated_001.gz''), [1, 2, 3])],
                calls := [PutCall ''logs'' ''web/2024-01-01/aggregated_001.gz'' [1, 2, 3]]\<rparr>) \<and>
   currentBuffer ((ex_agg ''web'')\<lparr>fileCounter := 1\<rparr>) = [] \<and>
   currentSize ((ex_agg ''web'')\<lparr>fileCounter := 1\<rparr>) = 0 \<and>
   uploadBuffer Plain ((ex_agg ''web'')\<lparr>currentBuffer := [1, 2, 3], currentSize := 3\<rparr>)
       (ex_world\<lparr>put_fails := [''web/2024-01-01/aggregated_001.gz'']\<rparr>) =
     (Err UploadError,
      (ex_agg ''web'')\<lparr>currentBuffer := [1, 2, 3], currentSize := 3, fileCounter := 1\<rparr>,
      ex_world\<lparr>put_fails := [''web/2024-01-01/aggregated_001.gz''],
                calls := [PutCall ''logs'' ''web/2024-01-01/aggregated_001.gz'' [1, 2, 3]]\<rparr>) \<and>
   currentSize ((ex_agg ''web'')\<lparr>currentBuffer := [1, 2, 3], currentSize := 3, fileCounter := 1\<rparr>) =
     int (length (currentBuffer
       ((ex_agg ''web'')\<lparr>currentBuffer := [1, 2, 3], currentSize := 3, fileCounter := 1\<rparr>)))"
proof -
  let ?wf = "ex_world\<lparr>put_fails := [''web/2024-01-01/aggregated_001.gz'']\<rparr>"
  let ?af = "(ex_agg ''web'')\<lparr>currentBuffer := [1, 2, 3], currentSize := 3, fileCounter := 1\<rparr>"
  let ?wf' = "ex_world\<lparr>put_fails := [''web/2024-01-01/aggregated_001.gz''],
                calls := [PutCall ''logs'' ''web/2024-01-01/aggregated_001.gz'' [1, 2, 3]]\<rparr>"
  let ?fresh = "\<lparr>sourceBucket = ''logs'', sourcePrefix = [], destBucket = ''logs'', destPrefix = [],
              currentBuffer = [], currentSize = 0, fileCounter = 0, mu = False\<rparr>"
  let ?a = "(ex_agg ''web'')\<lparr>currentBuffer := [1, 2, 3], currentSize := 3\<rparr>"
  let ?a' = "(ex_agg ''web'')\<lparr>fileCounter := 1\<rparr>"
  let ?w' = "ex_world\<lparr>objects := objects ex_world @
                   [((''logs'', ''web/2024-01-01/aggregated_001.gz''), [1, 2, 3])],
                calls := [PutCall ''logs'' ''web/2024-01-01/aggregated_001.gz'' [1, 2, 3]]\<rparr>"
  have n: "newAggregator ''logs'' [] ''logs'' [] ex_world = Inr ?fresh" by code_simp
  have s: "start_app ''2024-01-01'' [] ?fresh ''web/'' = ex_agg ''web''" by code_simp
  have wc: "writeContent Plain (ex_agg ''web'') [1, 2, 3] ex_world = (OK, ?a, ex_world)" by code_simp
  have u: "uploadBuffer Plain ?a ex_world = (OK, ?a', ?w')" by code_simp
  have r0: "reachable Plain ?fresh" using n by (rule reachable.init)
  have "reachable Plain (start_app ''2024-01-01'' [] ?fresh ''web/'')" using r0 by (rule reachable.app)
  then have r1: "reachable Plain (ex_agg ''web'')" by (simp only: s)
  have r2: "reachable Plain ?a" using r1 wc by (rule reachable.append)
  have uf: "uploadBuffer Plain ?a ?wf = (Err UploadError, ?af, ?wf')" by code_simp
  from size_counter_invariant [OF r2, of ex_world ?a' ?w'] u
  have ok: "currentSize ?a = int (length (currentBuffer ?a))"
    "currentBuffer ?a' = [] \<and> currentSize ?a' = 0"
    by blast+
  from size_counter_invariant [OF r2, of ?wf _ _ "Err UploadError" ?af ?wf'] uf
  have bad: "currentSize ?af = int (length (currentBuffer ?af))"
    by blast
  from r1 r2 u ok uf bad show ?thesis by blast
qed

subsection \<open>C8: the counter restarts with every partition\<close>

lemma uploadBuffer_live_any:
  assumes "uploadBuffer v a w = (r, a', w')" and "\<not> dryRun w"
  shows "(puts w' = puts w \<and> fileCounter a' = fileCounter a) \<or>
         (puts w' = puts w @ [PutCall (destBucket a) (bundle_key a) (bundle_bytes v (currentBuffer a))] \<and>
          fileCounter a' = wrap64 (fileCounter a + 1))"
proof (cases "mu a \<or> currentBuffer a = []")
  case True
  with assms have "w' = w \<and> a' = a"
    by (cases "mu a") (auto simp: uploadBuffer_held uploadBuffer_empty)
  then show ?thesis by simp
next
  case False
  with assms show ?thesis
    by (auto simp: uploadBuffer_live Let_def PutObject_def bundle_key_def puts_def split: if_splits)
qed

lemma uploadBuffer_frame:
  assumes "uploadBuffer v a w = (r, a', w')"
  shows "destPrefix a' = destPrefix a \<and> destBucket a' = destBucket a \<and>
         sourcePrefix a' = sourcePrefix a \<and> sourceBucket a' = sourceBucket a \<and>
         dryRun w' = dryRun w"
  using assms
  by (cases "mu a")
     (auto simp: uploadBuffer_held uploadBuffer_def Lock_def uploadBuffer_locked_def
        deferred_Unlock_def Unlock_def Let_def PutObject_def
        split: if_splits option.splits)

text \<open>
  However a partition run ends in live mode, it has made no \<^verbatim>\<open>PutObject\<close> call and left
  the counter as it was, or it has made one, under the next key, and incremented the
  counter once; the prefixes and the destination bucket are as they were.
\<close>

lemma run_live_any:
  assumes "run v sched stop a w = (r, a', w')" and "\<not> dryRun w"
  shows "((puts w' = puts w \<and> fileCounter a' = fileCounter a) \<or>
          (\<exists>body. puts w' = puts w @ [PutCall (destBucket a) (bundle_key a) body] \<and>
                  fileCounter a' = wrap64 (fileCounter a + 1))) \<and>
         sourcePrefix a' = sourcePrefix a \<and> destBucket a' = destBucket a \<and> \<not> dryRun w'"
proof -
  from run_shape [OF assms(1)] obtain a2 w2 m where
    w2: "w2 = w\<lparr>calls := calls w @ ListCall (sourceBucket a) (sourcePrefix a) False #
            map (GetCall (sourceBucket a)) (take m (sched (listed w (sourceBucket a) (sourcePrefix a))))\<rparr>"
    and fr: "fileCounter a2 = fileCounter a" "destPrefix a2 = destPrefix a"
      "destBucket a2 = destBucket a" "sourcePrefix a2 = sourcePrefix a"
    and alt: "(a' = a2 \<and> w' = w2) \<or> (\<exists>r3. uploadBuffer v a2 w2 = (r3, a', w'))"
    by blast
  have p2: "puts w2 = puts w" "\<not> dryRun w2"
    using w2 assms(2) by (simp_all add: puts_def)
  have k2: "bundle_key a2 = bundle_key a"
    using fr by (simp add: bundle_key_def)
  from alt show ?thesis
  proof
    assume "a' = a2 \<and> w' = w2"
    with p2 fr show ?thesis by simp
  next
    assume "\<exists>r3. uploadBuffer v a2 w2 = (r3, a', w')"
    then obtain r3 where ub: "uploadBuffer v a2 w2 = (r3, a', w')" by blast
    from uploadBuffer_live_any [OF ub p2(2)] uploadBuffer_frame [OF ub] p2 fr k2
    show ?thesis by auto
  qed
qed

lemma length_digits:
  "n < 10 \<Longrightarrow> length (digits n) = 1"
  "10 \<le> n \<Longrightarrow> n < 100 \<Longrightarrow> length (digits n) = 2"
  "100 \<le> n \<Longrightarrow> n < 1000 \<Longrightarrow> length (digits n) = 3"
proof -
  show one: "length (digits n) = 1" if "n < 10" for n
    using that by (simp add: digits.simps [of n])
  show two: "length (digits n) = 2" if "10 \<le> n" "n < 100" for n
  proof -
    have "n div 10 < 10" using that by simp
    with that one [of "n div 10"] show ?thesis by (simp add: digits.simps [of n])
  qed
  show "length (digits n) = 3" if "100 \<le> n" "n < 1000"
  proof -
    have "10 \<le> n div 10" "n div 10 < 100" using that by simp_all
    with that two [of "n div 10"] show ?thesis by (simp add: digits.simps [of n])
  qed
qed

lemma dec_value_zeros: "dec_value (replicate k (CHR ''0'') @ s) = dec_value s"
  by (induction k) (simp_all add: dec_value_def)

lemma fmt_03d_three:
  assumes "0 \<le> n" "n < 1000"
  shows "length (fmt_03d n) = 3 \<and> int (dec_value (fmt_03d n)) = n"
proof -
  have v: "int (dec_value (fmt_03d n)) = n"
    using assms by (simp add: fmt_03d_def pad0_def dec_value_zeros dec_value_digits)
  have "nat n < 10 \<or> (10 \<le> nat n \<and> nat n < 100) \<or> (100 \<le> nat n \<and> nat n < 1000)"
    using assms by auto
  then have "length (fmt_03d n) = 3"
    using assms by (auto simp: fmt_03d_def pad0_def length_digits)
  with v show ?thesis by simp
qed

lemma fmt_03d_1: "fmt_03d 1 = ''001''"
  by code_simp

lemma uploadBuffer_counter:
  assumes "uploadBuffer v a w = (r, a', w')"
  shows "fileCounter a' = fileCounter a \<or> fileCounter a' = wrap64 (fileCounter a + 1)"
  using assms
  by (cases "mu a")
     (auto simp: uploadBuffer_held uploadBuffer_def Lock_def uploadBuffer_locked_def
        deferred_Unlock_def Unlock_def Let_def PutObject_def
        split: if_splits option.splits)

lemma run_counter:
  assumes "run v sched stop a w = (r, a', w')"
  shows "fileCounter a' = fileCounter a \<or> fileCounter a' = wrap64 (fileCounter a + 1)"
proof -
  from run_shape [OF assms] obtain a2 w2 where
    fr: "fileCounter a2 = fileCounter a"
    and alt: "(a' = a2 \<and> w' = w2) \<or> (\<exists>r3. uploadBuffer v a2 w2 = (r3, a', w'))"
    by blast
  from alt show ?thesis
  proof
    assume "a' = a2 \<and> w' = w2"
    with fr show ?thesis by simp
  next
    assume "\<exists>r3. uploadBuffer v a2 w2 = (r3, a', w')"
    then obtain r3 where "uploadBuffer v a2 w2 = (r3, a', w')" by blast
    from uploadBuffer_counter [OF this] fr show ?thesis by simp
  qed
qed

text \<open>
  After the loop of \<^verbatim>\<open>processLogs\<close> over at least one partition, in either mode and
  however it ends, the counter is 0 or 1: the last partition it ran started from 0 and
  made at most one flush.
\<close>

lemma apps_loop_counter:
  "apps_loop v sched stop date dp0 agg w pfxs = (r, a', w') \<Longrightarrow> pfxs \<noteq> [] \<Longrightarrow>
   fileCounter a' = 0 \<or> fileCounter a' = 1"
proof (induction pfxs arbitrary: agg w)
  case Nil
  then show ?case by simp
next
  case (Cons p pfxs)
  let ?s = "start_app date dp0 agg p"
  obtain r1 a1 w1 where rn: "run v sched stop ?s w = (r1, a1, w1)"
    by (cases "run v sched stop ?s w") auto
  have s0: "fileCounter ?s = 0" by (simp add: start_app_def Let_def)
  have w1: "wrap64 1 = 1" by (simp add: wrap64_def)
  from run_counter [OF rn] s0 w1 have c1: "fileCounter a1 = 0 \<or> fileCounter a1 = 1" by simp
  show ?case
  proof (cases "r1 = OK \<and> pfxs \<noteq> []")
    case True
    with Cons.prems(1) rn have "apps_loop v sched stop date dp0 a1 w1 pfxs = (r, a', w')" by simp
    from Cons.IH [OF this] True show ?thesis by simp
  next
    case False
    with Cons.prems(1) rn have "a' = a1" by (cases "r1 = OK") auto
    with c1 show ?thesis by simp
  qed
qed

lemma first_bundles_Nil [simp]: "first_bundles date dp0 agg pfxs []"
  by (cases pfxs) simp_all

lemma is_first_bundle_cong:
  "destBucket s = destBucket t \<Longrightarrow> destPrefix s = destPrefix t \<Longrightarrow>
   is_first_bundle s c = is_first_bundle t c"
  by (cases c) simp_all

lemma first_bundles_cong:
  "sourcePrefix s = sourcePrefix t \<Longrightarrow> destBucket s = destBucket t \<Longrightarrow>
   first_bundles date dp0 s pfxs cs = first_bundles date dp0 t pfxs cs"
proof (induction pfxs arbitrary: s t cs)
  case Nil
  show ?case by simp
next
  case (Cons p pfxs)
  let ?s = "start_app date dp0 s p" and ?t = "start_app date dp0 t p"
  have eq: "sourcePrefix ?s = sourcePrefix ?t" "destBucket ?s = destBucket ?t"
    "destPrefix ?s = destPrefix ?t"
    using Cons.prems by (simp_all add: start_app_def Let_def)
  have ih: "first_bundles date dp0 ?s pfxs xs = first_bundles date dp0 ?t pfxs xs" for xs
    using eq by (intro Cons.IH)
  show ?case
  proof (cases cs)
    case Nil
    then show ?thesis by simp
  next
    case (Cons c cs')
    with ih is_first_bundle_cong [OF eq(2,3)] show ?thesis by simp
  qed
qed

lemma first_bundles_skip:
  "first_bundles date dp0 (start_app date dp0 agg p) pfxs cs \<Longrightarrow>
   first_bundles date dp0 agg (p # pfxs) cs"
  by (cases cs) simp_all

text \<open>
  The loop of \<^verbatim>\<open>processLogs\<close> in live mode, however it ends: the \<^verbatim>\<open>PutObject\<close> calls
  it made are first bundles of its partitions, in the order of the partitions.
\<close>

lemma apps_loop_first_bundles:
  "apps_loop v sched stop date dp0 agg w pfxs = (r, a', w') \<Longrightarrow> \<not> dryRun w \<Longrightarrow>
   \<exists>new. puts w' = puts w @ new \<and> first_bundles date dp0 agg pfxs new"
proof (induction pfxs arbitrary: agg w)
  case Nil
  then have "puts w' = puts w @ [] \<and> first_bundles date dp0 agg [] []" by simp
  then show ?case by blast
next
  case (Cons p pfxs)
  let ?s = "start_app date dp0 agg p"
  obtain r1 a1 w1 where rn: "run v sched stop ?s w = (r1, a1, w1)"
    by (cases "run v sched stop ?s w") auto
  have s0: "fileCounter ?s = 0" by (simp add: start_app_def Let_def)
  have w1: "wrap64 1 = 1" by (simp add: wrap64_def)
  have k: "bundle_key ?s = destPrefix ?s @ ''aggregated_001.gz''"
    using s0 w1 fmt_03d_1 by (simp add: bundle_key_def)
  from run_live_any [OF rn Cons.prems(2)] k
  have one: "puts w1 = puts w \<or>
      (\<exists>body. puts w1 = puts w @ [PutCall (destBucket ?s) (destPrefix ?s @ ''aggregated_001.gz'') body])"
    and fr: "sourcePrefix a1 = sourcePrefix ?s" "destBucket a1 = destBucket ?s" and l1: "\<not> dryRun w1"
    by auto
  from one obtain head where head: "puts w1 = puts w @ head"
    "head = [] \<or> (\<exists>c. head = [c] \<and> is_first_bundle ?s c)"
    by auto
  obtain rest where tl: "puts w' = puts w1 @ rest" "first_bundles date dp0 ?s pfxs rest"
  proof (cases "r1 = OK")
    case True
    with Cons.prems(1) rn have al: "apps_loop v sched stop date dp0 a1 w1 pfxs = (r, a', w')"
      by simp
    from Cons.IH [OF al l1] obtain new where
      n: "puts w' = puts w1 @ new" "first_bundles date dp0 a1 pfxs new"
      by blast
    from n(2) have "first_bundles date dp0 ?s pfxs new"
      using first_bundles_cong [OF fr] by simp
    with n(1) that show ?thesis by blast
  next
    case False
    with Cons.prems(1) rn have "w' = w1" by simp
    then have "puts w' = puts w1 @ []" "first_bundles date dp0 ?s pfxs []"
      by simp_all
    with that show ?thesis by blast
  qed
  have fb: "first_bundles date dp0 agg (p # pfxs) (head @ rest)"
    using head(2) tl(2) by (auto intro: first_bundles_skip)
  have "puts w' = puts w @ (head @ rest)"
    using head(1) tl(1) by simp
  with fb show ?case by blast
qed

text \<open>
  Claim C8. Every partition that \<^verbatim>\<open>processLogs\<close> processes starts with the counter
  reset: after the loop over at least one common prefix, in either mode and however it
  ends, the counter is 0 or 1, whatever it was before; and in a live run the
  \<^verbatim>\<open>PutObject\<close> calls of the whole loop, whatever earlier partitions produced, are first
  bundles of the partitions in their order, each under the key
  \<^verbatim>\<open><partition's destination prefix>aggregated_001.gz\<close>. The same holds for
  \<^verbatim>\<open>processLogs\<close> as a whole, from the aggregator it creates, over the common prefixes
  its listing returns. Every flush of a buffer that is not empty, the final one included,
  increments the counter once and uses the key made of the destination prefix,
  \<^verbatim>\<open>aggregated_\<close>, the new counter printed with \<^verbatim>\<open>%03d\<close> and \<^verbatim>\<open>.gz\<close>; for a counter
  from 0 to 999 that is three decimal digits, padded with zeros, that read back as the
  counter.
\<close>

theorem counter_restarts_per_partition:
  "(apps_loop v sched stop date dp0 agg w pfxs = (r, a', w') \<longrightarrow>
      (pfxs \<noteq> [] \<longrightarrow> fileCounter a' = 0 \<or> fileCounter a' = 1) \<and>
      (\<not> dryRun w \<longrightarrow>
         (\<exists>new. puts w' = puts w @ new \<and> first_bundles date dp0 agg pfxs new))) \<and>
   (parseS3URI (''s3://'' @ bucket @ ''/'') = Inr (b, p) \<and>
    processLogs v sched stop date bucket False wp = (rp, wp') \<longrightarrow>
      (\<exists>new. puts wp' = puts wp @ new \<and>
         first_bundles date p
           \<lparr>sourceBucket = b, sourcePrefix = p, destBucket = b, destPrefix = p,
            currentBuffer = [], currentSize = 0, fileCounter = 0, mu = False\<rparr>
           (common_prefixes wp b p) new)) \<and>
   (\<not> mu a \<and> currentBuffer a \<noteq> [] \<and> 0 \<le> fileCounter a \<and> fileCounter a < maxInt \<and>
    \<not> dryRun wl \<and> uploadBuffer v a wl = (rl, al, wl') \<longrightarrow>
      fileCounter al = fileCounter a + 1 \<and>
      calls wl' = calls wl @
        [PutCall (destBucket a)
           (destPrefix a @ ''aggregated_'' @ fmt_03d (fileCounter al) @ ''.gz'')
           (bundle_bytes v (currentBuffer a))]) \<and>
   (0 \<le> n \<and> n < 1000 \<longrightarrow> length (fmt_03d n) = 3 \<and> int (dec_value (fmt_03d n)) = n)"
proof (intro conjI impI)
  assume al: "apps_loop v sched stop date dp0 agg w pfxs = (r, a', w')"
  show "fileCounter a' = 0 \<or> fileCounter a' = 1" if "pfxs \<noteq> []"
    using al that by (rule apps_loop_counter)
  show "\<exists>new. puts w' = puts w @ new \<and> first_bundles date dp0 agg pfxs new" if "\<not> dryRun w"
    using al that by (rule apps_loop_first_bundles)
next
  let ?agg = "\<lparr>sourceBucket = b, sourcePrefix = p, destBucket = b, destPrefix = p,
            currentBuffer = [], currentSize = 0, fileCounter = 0, mu = False\<rparr>"
  let ?w0 = "wp\<lparr>dryRun := False\<rparr>"
  let ?w1 = "?w0\<lparr>calls := calls ?w0 @ [ListCall b p True]\<rparr>"
  assume h: "parseS3URI (''s3://'' @ bucket @ ''/'') = Inr (b, p) \<and>
    processLogs v sched stop date bucket False wp = (rp, wp')"
  then have ps: "parseS3URI (''s3://'' @ bucket @ ''/'') = Inr (b, p)"
    and pl: "processLogs v sched stop date bucket False wp = (rp, wp')"
    by simp_all
  have none: "\<exists>new. puts wp' = puts wp @ new \<and> first_bundles date p ?agg (common_prefixes wp b p) new"
    if "puts wp' = puts wp"
  proof -
    from that have "puts wp' = puts wp @ [] \<and> first_bundles date p ?agg (common_prefixes wp b p) []"
      by simp
    then show ?thesis by blast
  qed
  show "\<exists>new. puts wp' = puts wp @ new \<and> first_bundles date p ?agg (common_prefixes wp b p) new"
  proof (cases "date = [] \<or> bucket = [] \<or> config_fails wp \<or> p \<in> set (list_fails wp)")
    case True
    with pl ps have "puts wp' = puts wp"
      by (auto simp: processLogs_def Let_def newAggregator_def ListCommonPrefixes_def puts_def
          split: if_splits)
    then show ?thesis by (rule none)
  next
    case False
    have lc: "ListCommonPrefixes b p ?w0 = (Some (common_prefixes wp b p), ?w1)"
      using False by (simp add: ListCommonPrefixes_def common_prefixes_def Let_def)
    obtain r1 a1 w1 where al: "apps_loop v sched stop date p ?agg ?w1 (common_prefixes wp b p) = (r1, a1, w1)"
      by (cases "apps_loop v sched stop date p ?agg ?w1 (common_prefixes wp b p)") auto
    from pl ps False lc al have w': "wp' = w1"
      by (simp add: processLogs_def Let_def newAggregator_def)
    have l1: "\<not> dryRun ?w1" by simp
    from apps_loop_first_bundles [OF al l1] obtain new where
      "puts w1 = puts ?w1 @ new" "first_bundles date p ?agg (common_prefixes wp b p) new"
      by blast
    moreover have "puts ?w1 = puts wp" by (simp add: puts_def)
    ultimately show ?thesis using w' by auto
  qed
next
  assume h: "\<not> mu a \<and> currentBuffer a \<noteq> [] \<and> 0 \<le> fileCounter a \<and> fileCounter a < maxInt \<and>
    \<not> dryRun wl \<and> uploadBuffer v a wl = (rl, al, wl')"
  then have w: "wrap64 (fileCounter a + 1) = fileCounter a + 1"
    by (simp add: wrap64_succ)
  from h w show "fileCounter al = fileCounter a + 1"
    by (auto simp: uploadBuffer_live Let_def split: if_splits)
  from h w show "calls wl' = calls wl @
        [PutCall (destBucket a)
           (destPrefix a @ ''aggregated_'' @ fmt_03d (fileCounter al) @ ''.gz'')
           (bundle_bytes v (currentBuffer a))]"
    by (auto simp: uploadBuffer_live Let_def PutObject_def split: if_splits)
next
  assume "0 \<le> n \<and> n < 1000"
  then show "length (fmt_03d n) = 3" "int (dec_value (fmt_03d n)) = n"
    using fmt_03d_three [of n] by simp_all
qed

theorem counter_restarts_per_partition_witness:
  "\<not> dryRun ex_world \<and>
   apps_loop Plain id (\<lambda>n. False) ''2024-01-01'' [] ((ex_agg ''old'')\<lparr>fileCounter := 7\<rparr>) ex_world
       [''web/'', ''api/''] =
     (OK, (ex_agg ''api'')\<lparr>fileCounter := 1\<rparr>,
      ex_world\<lparr>objects := objects ex_world @
                   [((''logs'', ''web/2024-01-01/aggregated_001.gz''), [1, 2, 3, 4, 5]),
                    ((''logs'', ''api/2024-01-01/aggregated_001.gz''), [6])],
                calls := [ListCall ''logs'' ''web/2024-01-01/'' False,
                          GetCall ''logs'' ''web/2024-01-01/a.log'',
                          GetCall ''logs'' ''web/2024-01-01/b.log'',
                          PutCall ''logs'' ''web/2024-01-01/aggregated_001.gz'' [1, 2, 3, 4, 5],
                          ListCall ''logs'' ''api/2024-01-01/'' False,
                          GetCall ''logs'' ''api/2024-01-01/x.log'',
                          PutCall ''logs'' ''api/2024-01-01/aggregated_001.gz'' [6]]\<rparr>) \<and>
   (\<exists>new. puts (ex_world\<lparr>objects := objects ex_world @
                   [((''logs'', ''web/2024-01-01/aggregated_001.gz''), [1, 2, 3, 4, 5]),
                    ((''logs'', ''api/2024-01-01/aggregated_001.gz''), [6])],
                calls := [ListCall ''logs'' ''web/2024-01-01/'' False,
                          GetCall ''logs'' ''web/2024-01-01/a.log'',
                          GetCall ''logs'' ''web/2024-01-01/b.log'',
                          PutCall ''logs'' ''web/2024-01-01/aggregated_001.gz'' [1, 2, 3, 4, 5],
                          ListCall ''logs'' ''api/2024-01-01/'' False,
                          GetCall ''logs'' ''api/2024-01-01/x.log'',
                          PutCall ''logs'' ''api/2024-01-01/aggregated_001.gz'' [6]]\<rparr>) =
            puts ex_world @ new \<and>
          first_bundles ''2024-01-01'' [] ((ex_agg ''old'')\<lparr>fileCounter := 7\<rparr>)
            [''web/'', ''api/''] new) \<and>
   (fileCounter ((ex_agg ''api'')\<lparr>fileCounter := 1\<rparr>) = 0 \<or>
    fileCounter ((ex_agg ''api'')\<lparr>fileCounter := 1\<rparr>) = 1) \<and>
   parseS3URI (''s3://'' @ ''logs'' @ ''/'') = Inr (''logs'', []) \<and>
   common_prefixes ex_world ''logs'' [] = [''api/'', ''cron/'', ''web/''] \<and>
   fst (processLogs Plain id (\<lambda>n. False) ''2024-01-01'' ''logs'' False ex_world) = OK \<and>
   puts (snd (processLogs Plain id (\<lambda>n. False) ''2024-01-01'' ''logs'' False ex_world)) =
     [PutCall ''logs'' ''api/2024-01-01/aggregated_001.gz'' [6],
      PutCall ''logs'' ''web/2024-01-01/aggregated_001.gz'' [1, 2, 3, 4, 5]] \<and>
   (\<exists>new. puts (snd (processLogs Plain id (\<lambda>n. False) ''2024-01-01'' ''logs'' False ex_world)) =
            puts ex_world @ new \<and>
          first_bundles ''2024-01-01'' []
            \<lparr>sourceBucket = ''logs'', sourcePrefix = [], destBucket = ''logs'', destPrefix = [],
             currentBuffer = [], currentSize = 0, fileCounter = 0, mu = False\<rparr>
            (common_prefixes ex_world ''logs'' []) new) \<and>
   fst (processLogs Plain id (\<lambda>n. False) ''2024-01-01'' ''logs'' False
          (ex_world\<lparr>get_fails := [''web/2024-01-01/b.log'']\<rparr>)) =
     Err (GetObjectError ''web/2024-01-01/b.log'') \<and>
   puts (snd (processLogs Plain id (\<lambda>n. False) ''2024-01-01'' ''logs'' False
          (ex_world\<lparr>get_fails := [''web/2024-01-01/b.log'']\<rparr>))) =
     [PutCall ''logs'' ''api/2024-01-01/aggregated_001.gz'' [6],
      PutCall ''logs'' ''web/2024-01-01/aggregated_001.gz'' [1, 2, 3]] \<and>
   (\<exists>new. puts (snd (processLogs Plain id (\<lambda>n. False) ''2024-01-01'' ''logs'' False
                   (ex_world\<lparr>get_fails := [''web/2024-01-01/b.log'']\<rparr>))) =
            puts (ex_world\<lparr>get_fails := [''web/2024-01-01/b.log'']\<rparr>) @ new \<and>
          first_bundles ''2024-01-01'' []
            \<lparr>sourceBucket = ''logs'', sourcePrefix = [], destBucket = ''logs'', destPrefix = [],
             currentBuffer = [], currentSize = 0, fileCounter = 0, mu = False\<rparr>
            (common_prefixes (ex_world\<lparr>get_fails := [''web/2024-01-01/b.log'']\<rparr>) ''logs'' []) new) \<and>
   uploadBuffer Plain
       ((ex_agg ''web'')\<lparr>currentBuffer := [1, 2, 3], currentSize := 3, fileCounter := 41\<rparr>) ex_world =
     (OK, (ex_agg ''web'')\<lparr>fileCounter := 42\<rparr>,
      ex_world\<lparr>objects := objects ex_world @
                   [((''logs'', ''web/2024-01-01/aggregated_042.gz''), [1, 2, 3])],
                calls := [PutCall ''logs'' ''web/2024-01-01/aggregated_042.gz'' [1, 2, 3]]\<rparr>) \<and>
   fileCounter ((ex_agg ''web'')\<lparr>fileCounter := 42\<rparr>) =
     fileCounter ((ex_agg ''web'')\<lparr>currentBuffer := [1, 2, 3], currentSize := 3, fileCounter := 41\<rparr>) + 1 \<and>
   fmt_03d 42 = ''042'' \<and> length (fmt_03d 42) = 3 \<and> int (dec_value (fmt_03d 42)) = 42"
proof -
  let ?old = "(ex_agg ''old'')\<lparr>fileCounter := 7\<rparr>"
  let ?a' = "(ex_agg ''api'')\<lparr>fileCounter := 1\<rparr>"
  let ?w' = "ex_world\<lparr>objects := objects ex_world @
                   [((''logs'', ''web/2024-01-01/aggregated_001.gz''), [1, 2, 3, 4, 5]),
                    ((''logs'', ''api/2024-01-01/aggregated_001.gz''), [6])],
                calls := [ListCall ''logs'' ''web/2024-01-01/'' False,
                          GetCall ''logs'' ''web/2024-01-01/a.log'',
                          GetCall ''logs'' ''web/2024-01-01/b.log'',
                          PutCall ''logs'' ''web/2024-01-01/aggregated_001.gz'' [1, 2, 3, 4, 5],
                          ListCall ''logs'' ''api/2024-01-01/'' False,
                          GetCall ''logs'' ''api/2024-01-01/x.log'',
                          PutCall ''logs'' ''api/2024-01-01/aggregated_001.gz'' [6]]\<rparr>"
  let ?P = "processLogs Plain id (\<lambda>n. False) ''2024-01-01'' ''logs'' False ex_world"
  let ?wg = "ex_world\<lparr>get_fails := [''web/2024-01-01/b.log'']\<rparr>"
  let ?Q = "processLogs Plain id (\<lambda>n. False) ''2024-01-01'' ''logs'' False ?wg"
  let ?fresh = "\<lparr>sourceBucket = ''logs'', sourcePrefix = [], destBucket = ''logs'', destPrefix = [],
             currentBuffer = [], currentSize = 0, fileCounter = 0, mu = False\<rparr>"
  let ?b = "(ex_agg ''web'')\<lparr>currentBuffer := [1, 2, 3], currentSize := 3, fileCounter := 41\<rparr>"
  let ?b' = "(ex_agg ''web'')\<lparr>fileCounter := 42\<rparr>"
  let ?wb = "ex_world\<lparr>objects := objects ex_world @
                   [((''logs'', ''web/2024-01-01/aggregated_042.gz''), [1, 2, 3])],
                calls := [PutCall ''logs'' ''web/2024-01-01/aggregated_042.gz'' [1, 2, 3]]\<rparr>"
  note inst = counter_restarts_per_partition [of Plain id "\<lambda>n. False" "''2024-01-01''" "[]"
      ?old ex_world "[''web/'', ''api/'']" OK ?a' ?w' "''logs''" "''logs''" "[]" ex_world "fst ?P" "snd ?P"
      ?b ex_world OK ?b' ?wb 42]
  note inst2 = counter_restarts_per_partition [of Plain id "\<lambda>n. False" "''2024-01-01''" "[]"
      ?old ex_world "[''web/'', ''api/'']" OK ?a' ?w' "''logs''" "''logs''" "[]" ?wg "fst ?Q" "snd ?Q"
      ?b ex_world OK ?b' ?wb 42]
  have q1: "?Q = (fst ?Q, snd ?Q)" by simp
  have qe: "fst ?Q = Err (GetObjectError ''web/2024-01-01/b.log'')" by code_simp
  have qp: "puts (snd ?Q) =
     [PutCall ''logs'' ''api/2024-01-01/aggregated_001.gz'' [6],
      PutCall ''logs'' ''web/2024-01-01/aggregated_001.gz'' [1, 2, 3]]"
    by code_simp
  have l: "\<not> dryRun ex_world" by code_simp
  have al: "apps_loop Plain id (\<lambda>n. False) ''2024-01-01'' [] ?old ex_world [''web/'', ''api/''] =
      (OK, ?a', ?w')"
    by code_simp
  have ne: "[''web/'', ''api/''] \<noteq> ([] :: string list)" by simp
  have ps: "parseS3URI (''s3://'' @ ''logs'' @ ''/'') = Inr (''logs'', [])" by code_simp
  have cp: "common_prefixes ex_world ''logs'' [] = [''api/'', ''cron/'', ''web/'']" by code_simp
  have p1: "?P = (fst ?P, snd ?P)" by simp
  have ok: "fst ?P = OK" by code_simp
  have pp: "puts (snd ?P) =
     [PutCall ''logs'' ''api/2024-01-01/aggregated_001.gz'' [6],
      PutCall ''logs'' ''web/2024-01-01/aggregated_001.gz'' [1, 2, 3, 4, 5]]"
    by code_simp
  have u: "uploadBuffer Plain ?b ex_world = (OK, ?b', ?wb)" by code_simp
  have hb: "\<not> mu ?b \<and> currentBuffer ?b \<noteq> [] \<and> 0 \<le> fileCounter ?b \<and> fileCounter ?b < maxInt"
    by code_simp
  have f: "fmt_03d 42 = ''042''" by code_simp
  have hn: "(0::int) \<le> 42 \<and> (42::int) < 1000" by simp
  from inst l al have c1: "\<exists>new. puts ?w' = puts ex_world @ new \<and>
      first_bundles ''2024-01-01'' [] ?old [''web/'', ''api/''] new"
    by blast
  from inst al ne have c2: "fileCounter ?a' = 0 \<or> fileCounter ?a' = 1"
    by blast
  from inst ps p1 have c3: "\<exists>new. puts (snd ?P) = puts ex_world @ new \<and>
      first_bundles ''2024-01-01'' [] ?fresh (common_prefixes ex_world ''logs'' []) new"
    by blast
  from inst2 ps q1 have c6: "\<exists>new. puts (snd ?Q) = puts ?wg @ new \<and>
      first_bundles ''2024-01-01'' [] ?fresh (common_prefixes ?wg ''logs'' []) new"
    by blast
  from inst hb l u have c4: "fileCounter ?b' = fileCounter ?b + 1" by blast
  from inst hn have c5: "length (fmt_03d 42) = 3 \<and> int (dec_value (fmt_03d 42)) = 42" by blast
  from l al c1 c2 ps cp ok pp c3 qe qp c6 u c4 f c5 show ?thesis by blast
qed

subsection \<open>C9: a missing parameter\<close>

text \<open>
  Claim C9. When the date or the bucket is empty, \<^verbatim>\<open>processLogs\<close> (and
  \<^verbatim>\<open>handleRequest\<close>, for both variants) returns the error \<^verbatim>\<open>date is required\<close> or
  \<^verbatim>\<open>bucket is required\<close>, and \<^verbatim>\<open>main\<close> in CLI mode ends with \<^verbatim>\<open>log.Fatal\<close>, in each
  case with the world as it was: no call to the object store (no listing, fetch or upload),
  no log line, and the \<^verbatim>\<open>dryRun\<close> variable untouched.
\<close>

theorem missing_parameter_fails_first:
  "date = [] \<or> bucket = [] \<longrightarrow>
     (processLogs v sched stop date bucket flag w = (Err DateRequired, w) \<or>
      processLogs v sched stop date bucket flag w = (Err BucketRequired, w)) \<and>
     handleRequest v sched stop \<lparr>Date = date, Bucket = bucket, DryRun = flag\<rparr> w =
       processLogs v sched stop date bucket flag w \<and>
     main_cli sched stop date bucket flag w = (Err CLIArgsFatal, w)"
  by (auto simp: processLogs_def handleRequest_def main_cli_def)

theorem missing_parameter_fails_first_witness:
  "processLogs Plain id (\<lambda>n. False) [] ''logs'' False ex_world = (Err DateRequired, ex_world) \<and>
   processLogs Plain id (\<lambda>n. False) ''2024-01-01'' [] False ex_world = (Err BucketRequired, ex_world) \<and>
   handleRequest (Gzip ex_gz ex_gunzip) id (\<lambda>n. False) \<lparr>Date = ''2024-01-01'', Bucket = [], DryRun = False\<rparr> ex_world
     = (Err BucketRequired, ex_world) \<and>
   main_cli id (\<lambda>n. False) [] ''logs'' False ex_world = (Err CLIArgsFatal, ex_world) \<and>
   calls ex_world = []"
proof -
  have d: "processLogs Plain id (\<lambda>n. False) [] ''logs'' False ex_world = (Err DateRequired, ex_world)"
    using missing_parameter_fails_first [of "[]" "''logs''" Plain id "\<lambda>n. False" False ex_world]
    by (simp add: processLogs_def)
  have b: "processLogs Plain id (\<lambda>n. False) ''2024-01-01'' [] False ex_world = (Err BucketRequired, ex_world)"
    using missing_parameter_fails_first [of "''2024-01-01''" "[]" Plain id "\<lambda>n. False" False ex_world]
    by (simp add: processLogs_def)
  have h: "handleRequest (Gzip ex_gz ex_gunzip) id (\<lambda>n. False)
      \<lparr>Date = ''2024-01-01'', Bucket = [], DryRun = False\<rparr> ex_world = (Err BucketRequired, ex_world)"
    using missing_parameter_fails_first [of "''2024-01-01''" "[]" "Gzip ex_gz ex_gunzip" id "\<lambda>n. False" False ex_world]
    by (simp add: processLogs_def)
  have m: "main_cli id (\<lambda>n. False) [] ''logs'' False ex_world = (Err CLIArgsFatal, ex_world)"
    using missing_parameter_fails_first [of "[]" "''logs''" Plain id "\<lambda>n. False" False ex_world] by simp
  have c: "calls ex_world = []" by code_simp
  from d b h m c show ?thesis by blast
qed

subsection \<open>C5 and C6: the flush at the threshold\<close>

text \<open>
  Both \<^verbatim>\<open>writeContent\<close> and \<^verbatim>\<open>uploadBuffer\<close> begin with \<^verbatim>\<open>a.mu.Lock()\<close>, and
  \<^verbatim>\<open>writeContent\<close> calls \<^verbatim>\<open>uploadBuffer\<close> while it holds the mutex. \<^verbatim>\<open>sync.Mutex\<close> is
  not reentrant, so the call never gets past its first statement.
\<close>

text \<open>
  Claim C6 (what the code does). An append on a free mutex whose size test
  \<^verbatim>\<open>a.currentSize+int64(len(content)) >= maxOutputSize\<close> succeeds ends blocked in the
  \<^verbatim>\<open>Lock\<close> of \<^verbatim>\<open>uploadBuffer\<close>, with the mutex held, the buffer and the counters as
  they were and no call made: the flush is neither executed nor completed under the lock.
  Otherwise the append panics when the buffer would become too large, or appends and
  returns \<^verbatim>\<open>nil\<close>.
\<close>

theorem threshold_flush_blocks:
  "writeContent v (a\<lparr>mu := False\<rparr>) content w =
     (if maxOutputSize \<le> wrap64 (currentSize a + int (length (item_bytes v content)))
      then (Deadlock, a\<lparr>mu := True\<rparr>, w)
      else if maxInt < int (length (currentBuffer a)) + int (length (item_bytes v content))
      then (Panic, a\<lparr>mu := False\<rparr>, w)
      else (OK, a\<lparr>currentBuffer := currentBuffer a @ item_bytes v content,
                  currentSize := wrap64 (currentSize a + int (length (item_bytes v content))),
                  mu := False\<rparr>, w))"
  by (simp add: writeContent_free Let_def)

text \<open>
  Claim C5 (what the code does). A partition of two objects of 250 MB each, taken in the
  order of the listing: the first is appended; for the second the size test succeeds, and
  the run ends blocked, whichever case the \<^verbatim>\<open>select\<close> of the main goroutine takes. No
  flush has happened, no \<^verbatim>\<open>PutObject\<close> call was made, and the second object was not
  appended.
\<close>

theorem second_object_never_appended:
  "run Plain id stop (ex_agg ''big'') big_world =
     (Deadlock,
      (ex_agg ''big'')\<lparr>currentBuffer := replicate 262144000 0, currentSize := 262144000, mu := True\<rparr>,
      big_world\<lparr>calls := [ListCall ''logs'' ''big/2024-01-01/'' False,
                           GetCall ''logs'' ''big/2024-01-01/a.log'',
                           GetCall ''logs'' ''big/2024-01-01/b.log'']\<rparr>) \<and>
   total_size Plain big_world ''logs'' (listed big_world ''logs'' ''big/2024-01-01/'') = 524288000 \<and>
   maxOutputSize = 524288000"
  using big_run [of stop] big_total by (simp add: maxOutputSize_def)

end
